theory Spec2Isabelle
  imports Complex_Main
begin

section \<open>JavaScript numbers\<close>

text \<open>
  A TypeScript \<open>number\<close> is an IEEE 754 binary64 value: a finite value \<open>Num x\<close>, the
  negative zero, the two infinities or NaN; \<open>Num 0\<close> is the positive zero. The type also
  holds \<open>Num x\<close> for reals \<open>x\<close> that no double has; every operation rounds its result,
  so values computed from doubles are doubles.

  \<open>fl x\<close> rounds the real \<open>x\<close> to the nearest double, ties to the even significand:
  \<open>expo a\<close> is the exponent \<open>e\<close> of the binade \<open>2^e \<le> a < 2^(e+1)\<close>, not below -1022
  (the subnormal range) and 1024 when \<open>a\<close> is at least \<open>2^1024\<close>; the grid of that binade
  has the spacing \<open>2^(e-52)\<close>; a result of magnitude \<open>2^1024\<close> is an infinity, and a
  result 0 keeps the sign of \<open>x\<close>.
\<close>

datatype number = Num real | NegZero | Infinity | NegInfinity | NaN

fun expoUp :: "nat \<Rightarrow> real \<Rightarrow> int \<Rightarrow> int" where
  "expoUp 0 a e = e"
| "expoUp (Suc n) a e = (if a < 2 powi (e + 1) then e else expoUp n a (e + 1))"

fun expoDown :: "nat \<Rightarrow> real \<Rightarrow> int \<Rightarrow> int" where
  "expoDown 0 a e = e"
| "expoDown (Suc n) a e = (if 2 powi e \<le> a then e else expoDown n a (e - 1))"

definition expo :: "real \<Rightarrow> int" where
  "expo a = (if 1 \<le> a then expoUp 1024 a 0 else expoDown 1021 a (- 1))"

definition roundEven :: "real \<Rightarrow> int" where
  "roundEven r =
     (let f = \<lfloor>r\<rfloor> in
      if r - of_int f < 1 / 2 then f
      else if 1 / 2 < r - of_int f then f + 1
      else if even f then f else f + 1)"

definition fl :: "real \<Rightarrow> number" where
  "fl x =
     (if x = 0 then Num 0
      else (let e = expo \<bar>x\<bar>;
                q = 2 powi (e - 52);
                r = roundEven (x / q)
            in if e = 1024 \<or> (e = 1023 \<and> \<bar>r\<bar> = 2 ^ 53)
               then (if x < 0 then NegInfinity else Infinity)
               else if r = 0 then (if x < 0 then NegZero else Num 0)
               else Num (of_int r * q)))"

text \<open>
  The arithmetic operators, \<open>Math.sqrt\<close>, \<open>Math.abs\<close>, \<open>Math.min\<close>, \<open>Math.max\<close>, the
  comparisons and truthiness, with the special cases of IEEE 754 and ECMAScript: NaN
  propagates and compares false, \<open>Infinity - Infinity\<close>, \<open>0 * Infinity\<close>, \<open>0 / 0\<close> and
  \<open>Infinity / Infinity\<close> are NaN, a non-zero value divided by a zero is an infinity, and
  the sign of a zero or infinite product or quotient is the exclusive or of the signs.
\<close>

fun val :: "number \<Rightarrow> real" where
  "val (Num x) = x"
| "val n = 0"

fun isInf :: "number \<Rightarrow> bool" where
  "isInf Infinity = True"
| "isInf NegInfinity = True"
| "isInf n = False"

fun isZero :: "number \<Rightarrow> bool" where
  "isZero (Num x) = (x = 0)"
| "isZero NegZero = True"
| "isZero n = False"

fun signNeg :: "number \<Rightarrow> bool" where
  "signNeg (Num x) = (x < 0)"
| "signNeg NegZero = True"
| "signNeg NegInfinity = True"
| "signNeg n = False"

fun jsNeg :: "number \<Rightarrow> number" where
  "jsNeg (Num x) = (if x = 0 then NegZero else Num (- x))"
| "jsNeg NegZero = Num 0"
| "jsNeg Infinity = NegInfinity"
| "jsNeg NegInfinity = Infinity"
| "jsNeg NaN = NaN"

definition jsAdd :: "number \<Rightarrow> number \<Rightarrow> number" where
  "jsAdd a b =
     (if a = NaN \<or> b = NaN then NaN
      else if a = Infinity then (if b = NegInfinity then NaN else Infinity)
      else if a = NegInfinity then (if b = Infinity then NaN else NegInfinity)
      else if b = Infinity then Infinity
      else if b = NegInfinity then NegInfinity
      else if a = NegZero \<and> b = NegZero then NegZero
      else fl (val a + val b))"

definition jsSub :: "number \<Rightarrow> number \<Rightarrow> number" where
  "jsSub a b = jsAdd a (jsNeg b)"

definition jsMul :: "number \<Rightarrow> number \<Rightarrow> number" where
  "jsMul a b =
     (if a = NaN \<or> b = NaN then NaN
      else if isInf a \<or> isInf b then
        (if isZero a \<or> isZero b then NaN
         else if signNeg a \<noteq> signNeg b then NegInfinity else Infinity)
      else if isZero a \<or> isZero b then
        (if signNeg a \<noteq> signNeg b then NegZero else Num 0)
      else fl (val a * val b))"

definition jsDiv :: "number \<Rightarrow> number \<Rightarrow> number" where
  "jsDiv a b =
     (if a = NaN \<or> b = NaN then NaN
      else if isInf a then
        (if isInf b then NaN
         else if signNeg a \<noteq> signNeg b then NegInfinity else Infinity)
      else if isInf b then (if signNeg a \<noteq> signNeg b then NegZero else Num 0)
      else if isZero b then
        (if isZero a then NaN
         else if signNeg a \<noteq> signNeg b then NegInfinity else Infinity)
      else if isZero a then (if signNeg a \<noteq> signNeg b then NegZero else Num 0)
      else fl (val a / val b))"

fun jsSqrt :: "number \<Rightarrow> number" where
  "jsSqrt (Num x) = (if x < 0 then NaN else fl (sqrt x))"
| "jsSqrt NegZero = NegZero"
| "jsSqrt Infinity = Infinity"
| "jsSqrt NegInfinity = NaN"
| "jsSqrt NaN = NaN"

fun jsAbs :: "number \<Rightarrow> number" where
  "jsAbs (Num x) = Num \<bar>x\<bar>"
| "jsAbs NegZero = Num 0"
| "jsAbs Infinity = Infinity"
| "jsAbs NegInfinity = Infinity"
| "jsAbs NaN = NaN"

definition jsLt :: "number \<Rightarrow> number \<Rightarrow> bool" where
  "jsLt a b =
     (if a = NaN \<or> b = NaN then False
      else if a = Infinity \<or> b = NegInfinity then False
      else if a = NegInfinity \<or> b = Infinity then True
      else val a < val b)"

definition jsLe :: "number \<Rightarrow> number \<Rightarrow> bool" where
  "jsLe a b =
     (if a = NaN \<or> b = NaN then False
      else if a = NegInfinity \<or> b = Infinity then True
      else if a = Infinity \<or> b = NegInfinity then False
      else val a \<le> val b)"

definition jsGt :: "number \<Rightarrow> number \<Rightarrow> bool" where
  "jsGt a b = jsLt b a"

definition jsGe :: "number \<Rightarrow> number \<Rightarrow> bool" where
  "jsGe a b = jsLe b a"

text \<open>\<open>a !== b\<close> on numbers.\<close>

definition jsNe :: "number \<Rightarrow> number \<Rightarrow> bool" where
  "jsNe a b = (\<not> (jsLe a b \<and> jsLe b a))"

definition jsMin :: "number \<Rightarrow> number \<Rightarrow> number" where
  "jsMin a b =
     (if a = NaN \<or> b = NaN then NaN
      else if jsLt a b then a
      else if jsLt b a then b
      else if a = NegZero then a else b)"

definition jsMax :: "number \<Rightarrow> number \<Rightarrow> number" where
  "jsMax a b =
     (if a = NaN \<or> b = NaN then NaN
      else if jsLt a b then b
      else if jsLt b a then a
      else if a = NegZero then b else a)"

text \<open>A number is falsy when it is a zero or NaN.\<close>

definition truthy :: "number \<Rightarrow> bool" where
  "truthy a = (a \<noteq> NaN \<and> \<not> isZero a)"

section \<open>Element model (Whiteboard.tsx, lines 12-75)\<close>

text \<open>
  The fields \<open>x\<close> and \<open>y\<close> of a point are the selectors \<open>px\<close> and \<open>py\<close>; the field
  \<open>id\<close> is \<open>el_id\<close> and the field \<open>text\<close> is \<open>el_text\<close> (both names are taken in
  Isabelle). The field \<open>type\<close> is the constructor, together with \<open>shapeType\<close> for the
  three shapes. An optional field \<open>f?: T\<close> is a \<open>T option\<close>. \<open>pt x y\<close> abbreviates the
  point with the finite coordinates \<open>x\<close> and \<open>y\<close>.
\<close>

datatype Point = Point (px: number) (py: number)

abbreviation pt :: "real \<Rightarrow> real \<Rightarrow> Point" where
  "pt x y \<equiv> Point (Num x) (Num y)"

datatype ShapeType = rectangle | circle | arrow

datatype Align = left | center | right

datatype Element =
    PathElement (el_id: string) (color: string) (strokeWidth: number) (opacity: number)
      (points: "Point list")
  | ShapeElement (el_id: string) (color: string) (strokeWidth: number) (opacity: number)
      (shapeType: ShapeType) (startPoint: Point) (endPoint: Point)
  | TextElement (el_id: string) (color: string) (strokeWidth: number) (opacity: number)
      (position: Point) (el_text: string) (width: "number option") (height: "number option")
      (align: "Align option") (isBold: "bool option") (isItalic: "bool option")
      (isUnderlined: "bool option")
  | NoteElement (el_id: string) (color: string) (strokeWidth: number) (opacity: number)
      (position: Point) (el_text: string) (width: "number option") (height: "number option")
  | ImageElement (el_id: string) (color: string) (strokeWidth: number) (opacity: number)
      (position: Point) (src: string) (imgWidth: number) (imgHeight: number) (rotation: number)

section \<open>Geometry and hit testing (Whiteboard.tsx, lines 610-696)\<close>

definition distanceToSegment :: "Point \<Rightarrow> Point \<Rightarrow> Point \<Rightarrow> number" where
  "distanceToSegment point p1 p2 =
     (let A = jsSub (px point) (px p1);
          B = jsSub (py point) (py p1);
          C = jsSub (px p2) (px p1);
          D = jsSub (py p2) (py p1);
          dot = jsAdd (jsMul A C) (jsMul B D);
          lenSq = jsAdd (jsMul C C) (jsMul D D);
          param = (if jsNe lenSq (Num 0) then jsDiv dot lenSq else Num (- 1));
          xx = (if jsLt param (Num 0) then px p1
                else if jsGt param (Num 1) then px p2
                else jsAdd (px p1) (jsMul param C));
          yy = (if jsLt param (Num 0) then py p1
                else if jsGt param (Num 1) then py p2
                else jsAdd (py p1) (jsMul param D));
          dx = jsSub (px point) xx;
          dy = jsSub (py point) yy
      in jsSqrt (jsAdd (jsMul dx dx) (jsMul dy dy)))"

text \<open>
  The inner loop of the path branch, \<open>for (j = 0; j < points.length - 1; j++)\<close>, visits the
  consecutive pairs \<open>(points[j], points[j + 1])\<close> from the front and returns at the first
  pair closer than 10; \<open>pathLoop\<close> is that loop on the remaining suffix of the points.
\<close>

fun pathLoop :: "Point \<Rightarrow> Point list \<Rightarrow> bool" where
  "pathLoop point (p1 # p2 # rest) =
     (if jsLt (distanceToSegment point p1 p2) (Num 10) then True
      else pathLoop point (p2 # rest))"
| "pathLoop point _ = False"

text \<open>
  \<open>element.width ? element.width : 200\<close>: an absent width and a falsy width both give
  the fallback.
\<close>

definition orDefault :: "number option \<Rightarrow> number \<Rightarrow> number" where
  "orDefault v d = (case v of None \<Rightarrow> d | Some w \<Rightarrow> if truthy w then w else d)"

definition boxHit :: "Point \<Rightarrow> Point \<Rightarrow> number \<Rightarrow> number \<Rightarrow> bool" where
  "boxHit point pos w h =
     (jsGe (px point) (px pos) \<and> jsLe (px point) (jsAdd (px pos) w)
      \<and> jsGe (py point) (py pos) \<and> jsLe (py point) (jsAdd (py pos) h))"

text \<open>
  The body of the outer loop of \<open>getElementAtPosition\<close>: \<open>hitsElement point element\<close> holds
  when the body returns \<open>element\<close>, and fails when it falls through to the next index.
\<close>

fun hitsElement :: "Point \<Rightarrow> Element \<Rightarrow> bool" where
  "hitsElement point (TextElement i c sw opa pos t w h al b it u) =
     boxHit point pos (orDefault w (Num 200)) (orDefault h (Num 200))"
| "hitsElement point (NoteElement i c sw opa pos t w h) =
     boxHit point pos (orDefault w (Num 200)) (orDefault h (Num 200))"
| "hitsElement point (ImageElement i c sw opa pos s w h r) = boxHit point pos w h"
| "hitsElement point (PathElement i c sw opa pts) = pathLoop point pts"
| "hitsElement point (ShapeElement i c sw opa rectangle sp ep) =
     (let minX = jsMin (px sp) (px ep);
          maxX = jsMax (px sp) (px ep);
          minY = jsMin (py sp) (py ep);
          maxY = jsMax (py sp) (py ep)
      in jsGe (px point) minX \<and> jsLe (px point) maxX
         \<and> jsGe (py point) minY \<and> jsLe (py point) maxY)"
| "hitsElement point (ShapeElement i c sw opa circle sp ep) =
     (let centerX = jsDiv (jsAdd (px sp) (px ep)) (Num 2);
          centerY = jsDiv (jsAdd (py sp) (py ep)) (Num 2);
          radiusX = jsDiv (jsAbs (jsSub (px ep) (px sp))) (Num 2);
          radiusY = jsDiv (jsAbs (jsSub (py ep) (py sp))) (Num 2);
          normalizedX = jsDiv (jsSub (px point) centerX) radiusX;
          normalizedY = jsDiv (jsSub (py point) centerY) radiusY;
          distance = jsSqrt (jsAdd (jsMul normalizedX normalizedX)
                                   (jsMul normalizedY normalizedY))
      in jsLe distance (Num 1))"
| "hitsElement point (ShapeElement i c sw opa arrow sp ep) =
     jsLt (distanceToSegment point sp ep) (Num 10)"

text \<open>
  The outer loop \<open>for (i = elements.length - 1; i >= 0; i--)\<close>: \<open>scanDown els point n\<close>
  is the loop with \<open>i = n - 1\<close> still to visit.
\<close>

fun scanDown :: "Element list \<Rightarrow> Point \<Rightarrow> nat \<Rightarrow> Element option" where
  "scanDown els point 0 = None"
| "scanDown els point (Suc i) =
     (if hitsElement point (els ! i) then Some (els ! i) else scanDown els point i)"

definition getElementAtPosition :: "Element list \<Rightarrow> Point \<Rightarrow> Element option" where
  "getElementAtPosition els point = scanDown els point (length els)"

section \<open>Component state (Whiteboard.tsx, lines 91-99)\<close>

text \<open>
  The \<open>useState\<close> cells of the component that the drawing, editing and history handlers
  read and write. The state cells \<open>strokeWidth\<close> and \<open>opacity\<close> are the fields
  \<open>penWidth\<close> and \<open>penOpacity\<close> (the source's names are the element selectors here).
  The dialog, toolbar and project-list cells are not part of the model. Each synchronous
  handler is one transition: it reads the cells of the render it was created in and React
  applies its updates together before the next handler runs. The callback of the image
  import runs later and is modelled with the state it captured (see there).
\<close>

datatype ToolType =
    tool_select | tool_pen | tool_rectangle | tool_circle | tool_text | tool_note
  | tool_image | tool_eraser | tool_arrow

datatype Action = none | drawing | moving | erasing

record Whiteboard =
  activeTool :: ToolType
  elements :: "Element list"
  selectedElement :: "Element option"
  action :: Action
  selectedColor :: string
  penWidth :: number
  penOpacity :: number
  history :: "Element list list"
  historyIndex :: int

definition initialWhiteboard :: Whiteboard where
  "initialWhiteboard =
     \<lparr>activeTool = tool_select, elements = [], selectedElement = None, action = none,
      selectedColor = ''#000000'', penWidth = Num 3, penOpacity = Num 1, history = [],
      historyIndex = - 1\<rparr>"

section \<open>History (Whiteboard.tsx, lines 489-500, 698-712, 1048-1049)\<close>

text \<open>
  \<open>xs.slice(0, e)\<close>: a negative end counts from the end of the array, an end beyond
  the length is the length.
\<close>

definition slice0 :: "'a list \<Rightarrow> int \<Rightarrow> 'a list" where
  "slice0 xs e = take (nat (if e < 0 then int (length xs) + e else e)) xs"

text \<open>
  \<open>xs[i]\<close>: \<open>None\<close> is JavaScript's \<open>undefined\<close>, the value of an index out of range.
\<close>

definition at_index :: "'a list \<Rightarrow> int \<Rightarrow> 'a option" where
  "at_index xs i = (if 0 \<le> i \<and> i < int (length xs) then Some (xs ! nat i) else None)"

text \<open>
  The three updates that every committing handler performs with its new scene:
  \<open>setElements(scene)\<close>,
  \<open>setHistory(prev => [...prev.slice(0, historyIndex + 1), scene])\<close> and
  \<open>setHistoryIndex(prev => prev + 1)\<close>.
\<close>

definition commit :: "Element list \<Rightarrow> Whiteboard \<Rightarrow> Whiteboard" where
  "commit scene st =
     st\<lparr>elements := scene,
        history := slice0 (history st) (historyIndex st + 1) @ [scene],
        historyIndex := historyIndex st + 1\<rparr>"

text \<open>
  \<open>handleUndo\<close> and \<open>handleRedo\<close> store \<open>history[historyIndex \<plusminus> 1]\<close> in \<open>elements\<close>.
  Out of range that value is \<open>undefined\<close>, and the next render, which calls
  \<open>elements.forEach\<close>, throws a TypeError: the result \<open>None\<close> is that failure.
\<close>

definition handleUndo :: "Whiteboard \<Rightarrow> Whiteboard option" where
  "handleUndo st =
     (if historyIndex st > 0 then
        (case at_index (history st) (historyIndex st - 1) of
           None \<Rightarrow> None
         | Some scene \<Rightarrow> Some (st\<lparr>historyIndex := historyIndex st - 1, elements := scene\<rparr>))
      else Some st)"

definition handleRedo :: "Whiteboard \<Rightarrow> Whiteboard option" where
  "handleRedo st =
     (if historyIndex st < int (length (history st)) - 1 then
        (case at_index (history st) (historyIndex st + 1) of
           None \<Rightarrow> None
         | Some scene \<Rightarrow> Some (st\<lparr>historyIndex := historyIndex st + 1, elements := scene\<rparr>))
      else Some st)"

definition canUndo :: "Whiteboard \<Rightarrow> bool" where
  "canUndo st = (historyIndex st > 0)"

definition canRedo :: "Whiteboard \<Rightarrow> bool" where
  "canRedo st = (historyIndex st < int (length (history st)) - 1)"

definition confirmClear :: "Whiteboard \<Rightarrow> Whiteboard" where
  "confirmClear st = st\<lparr>elements := [], history := [], historyIndex := - 1\<rparr>"

definition finishDrawing :: "Whiteboard \<Rightarrow> Whiteboard" where
  "finishDrawing st =
     (if action st = drawing
      then st\<lparr>history := slice0 (history st) (historyIndex st + 1) @ [elements st],
              historyIndex := historyIndex st + 1\<rparr>
      else st)\<lparr>action := none, selectedElement := None\<rparr>"

text \<open>Running a handler that may fail \<open>n\<close> times in a row, stopping at a failure.\<close>

fun repeatedly :: "nat \<Rightarrow> ('a \<Rightarrow> 'a option) \<Rightarrow> 'a \<Rightarrow> 'a option" where
  "repeatedly 0 f s = Some s"
| "repeatedly (Suc n) f s = (case f s of None \<Rightarrow> None | Some s' \<Rightarrow> repeatedly n f s')"

text \<open>The invariant of the history cells, and a sequence of commits.\<close>

definition historyInv :: "Whiteboard \<Rightarrow> bool" where
  "historyInv st = (- 1 \<le> historyIndex st \<and> historyIndex st < int (length (history st)))"

definition commits :: "Element list list \<Rightarrow> Whiteboard \<Rightarrow> Whiteboard" where
  "commits scenes st = foldl (\<lambda>s scene. commit scene s) st scenes"

section \<open>Element editing handlers (Whiteboard.tsx, lines 502-608)\<close>

text \<open>
  The object spreads \<open>{ ...el, f: v }\<close> of the handlers. On an element whose kind has no
  field \<open>f\<close> the spread would add a property that no code reads; the model leaves such
  an element as it is.
\<close>

fun patchText :: "string \<Rightarrow> Element \<Rightarrow> Element" where
  "patchText newText (TextElement i c sw opa pos t w h al b it u) =
     TextElement i c sw opa pos newText w h al b it u"
| "patchText newText (NoteElement i c sw opa pos t w h) = NoteElement i c sw opa pos newText w h"
| "patchText newText el = el"

fun patchPosition :: "Point \<Rightarrow> Element \<Rightarrow> Element" where
  "patchPosition newPosition (TextElement i c sw opa pos t w h al b it u) =
     TextElement i c sw opa newPosition t w h al b it u"
| "patchPosition newPosition (NoteElement i c sw opa pos t w h) =
     NoteElement i c sw opa newPosition t w h"
| "patchPosition newPosition (ImageElement i c sw opa pos s w h r) =
     ImageElement i c sw opa newPosition s w h r"
| "patchPosition newPosition el = el"

fun patchColor :: "string \<Rightarrow> Element \<Rightarrow> Element" where
  "patchColor newColor (PathElement i c sw opa pts) = PathElement i newColor sw opa pts"
| "patchColor newColor (ShapeElement i c sw opa k sp ep) = ShapeElement i newColor sw opa k sp ep"
| "patchColor newColor (TextElement i c sw opa pos t w h al b it u) =
     TextElement i newColor sw opa pos t w h al b it u"
| "patchColor newColor (NoteElement i c sw opa pos t w h) = NoteElement i newColor sw opa pos t w h"
| "patchColor newColor (ImageElement i c sw opa pos s w h r) =
     ImageElement i newColor sw opa pos s w h r"

fun isTextOrNote :: "Element \<Rightarrow> bool" where
  "isTextOrNote (TextElement i c sw opa pos t w h al b it u) = True"
| "isTextOrNote (NoteElement i c sw opa pos t w h) = True"
| "isTextOrNote el = False"

fun isImage :: "Element \<Rightarrow> bool" where
  "isImage (ImageElement i c sw opa pos s w h r) = True"
| "isImage el = False"

fun patchTextSize :: "number \<Rightarrow> number \<Rightarrow> Element \<Rightarrow> Element" where
  "patchTextSize nw nh (TextElement i c sw opa pos t w h al b it u) =
     TextElement i c sw opa pos t (Some nw) (Some nh) al b it u"
| "patchTextSize nw nh (NoteElement i c sw opa pos t w h) =
     NoteElement i c sw opa pos t (Some nw) (Some nh)"
| "patchTextSize nw nh el = el"

fun patchImageSize :: "number \<Rightarrow> number \<Rightarrow> Element \<Rightarrow> Element" where
  "patchImageSize nw nh (ImageElement i c sw opa pos s w h r) =
     ImageElement i c sw opa pos s nw nh r"
| "patchImageSize nw nh el = el"

fun patchRotation :: "number \<Rightarrow> Element \<Rightarrow> Element" where
  "patchRotation nr (ImageElement i c sw opa pos s w h r) = ImageElement i c sw opa pos s w h nr"
| "patchRotation nr el = el"

definition handleTextChange :: "string \<Rightarrow> string \<Rightarrow> Whiteboard \<Rightarrow> Whiteboard" where
  "handleTextChange i newText st =
     commit (map (\<lambda>el. if el_id el = i then patchText newText el else el) (elements st)) st"

definition handleElementDelete :: "string \<Rightarrow> Whiteboard \<Rightarrow> Whiteboard" where
  "handleElementDelete i st = commit (filter (\<lambda>el. el_id el \<noteq> i) (elements st)) st"

definition handlePositionChange :: "string \<Rightarrow> Point \<Rightarrow> Whiteboard \<Rightarrow> Whiteboard" where
  "handlePositionChange i newPosition st =
     st\<lparr>elements :=
          map (\<lambda>el. if el_id el = i then patchPosition newPosition el else el) (elements st)\<rparr>"

definition handleTextResize :: "string \<Rightarrow> number \<Rightarrow> number \<Rightarrow> Whiteboard \<Rightarrow> Whiteboard" where
  "handleTextResize i nw nh st =
     commit (map (\<lambda>el. if el_id el = i \<and> isTextOrNote el then patchTextSize nw nh el else el)
               (elements st)) st"

definition handleNoteColorChange :: "string \<Rightarrow> string \<Rightarrow> Whiteboard \<Rightarrow> Whiteboard" where
  "handleNoteColorChange i newColor st =
     commit (map (\<lambda>el. if el_id el = i then patchColor newColor el else el) (elements st)) st"

definition handleImageResize :: "string \<Rightarrow> number \<Rightarrow> number \<Rightarrow> Whiteboard \<Rightarrow> Whiteboard" where
  "handleImageResize i nw nh st =
     commit (map (\<lambda>el. if el_id el = i \<and> isImage el then patchImageSize nw nh el else el)
               (elements st)) st"

definition handleImageRotate :: "string \<Rightarrow> number \<Rightarrow> Whiteboard \<Rightarrow> Whiteboard" where
  "handleImageRotate i nr st =
     commit (map (\<lambda>el. if el_id el = i \<and> isImage el then patchRotation nr el else el)
               (elements st)) st"

section \<open>Pointer handlers (Whiteboard.tsx, lines 334-487)\<close>

text \<open>
  \<open>Date.now().toString()\<close> is the parameter \<open>now\<close>. With the image tool \<open>startDrawing\<close>
  only opens the file picker. In \<open>draw\<close>, \<open>elements[elements.length - 1]\<close> is
  \<open>undefined\<close> on an empty scene; with the pen or a shape tool active the handler then
  reads its \<open>type\<close> and throws: the result \<open>None\<close>. With any other tool the
  short-circuit \<open>&&\<close> never reads it.
\<close>

fun isPathOrShape :: "Element \<Rightarrow> bool" where
  "isPathOrShape (PathElement i c sw opa pts) = True"
| "isPathOrShape (ShapeElement i c sw opa k sp ep) = True"
| "isPathOrShape el = False"

fun shapeOfTool :: "ToolType \<Rightarrow> ShapeType option" where
  "shapeOfTool tool_rectangle = Some rectangle"
| "shapeOfTool tool_circle = Some circle"
| "shapeOfTool tool_arrow = Some arrow"
| "shapeOfTool t = None"

definition startDrawing :: "Point \<Rightarrow> string \<Rightarrow> Whiteboard \<Rightarrow> Whiteboard" where
  "startDrawing point now st =
     (if activeTool st = tool_select then
        (case getElementAtPosition (elements st) point of
           None \<Rightarrow> st
         | Some element \<Rightarrow>
             if isPathOrShape element
             then st\<lparr>selectedElement := Some element, action := moving\<rparr>
             else st)
      else if activeTool st = tool_eraser then
        (case getElementAtPosition (elements st) point of
           None \<Rightarrow> st\<lparr>action := erasing\<rparr>
         | Some elementToErase \<Rightarrow>
             commit (filter (\<lambda>el. el_id el \<noteq> el_id elementToErase) (elements st))
               (st\<lparr>action := erasing\<rparr>))
      else if activeTool st = tool_text then
        (let newTextElement =
               TextElement now (selectedColor st) (penWidth st) (penOpacity st) point
                 ''Type here...'' (Some (Num 250)) (Some (Num 150)) None None None None
         in commit (elements st @ [newTextElement]) st)
      else if activeTool st = tool_note then
        (let newNoteElement =
               NoteElement now ''#ffeb3b'' (penWidth st) (penOpacity st) point
                 ''New note'' (Some (Num 200)) (Some (Num 200))
         in commit (elements st @ [newNoteElement]) st)
      else if activeTool st = tool_image then st
      else if activeTool st = tool_pen then
        st\<lparr>action := drawing,
           elements := elements st @
             [PathElement now (selectedColor st) (penWidth st) (penOpacity st) [point]]\<rparr>
      else
        (case shapeOfTool (activeTool st) of
           None \<Rightarrow> st\<lparr>action := drawing\<rparr>
         | Some kind \<Rightarrow>
             st\<lparr>action := drawing,
                elements := elements st @
                  [ShapeElement now (selectedColor st) (penWidth st) (penOpacity st)
                     kind point point]\<rparr>))"

fun isPath :: "Element \<Rightarrow> bool" where
  "isPath (PathElement i c sw opa pts) = True"
| "isPath el = False"

fun isShape :: "Element \<Rightarrow> bool" where
  "isShape (ShapeElement i c sw opa k sp ep) = True"
| "isShape el = False"

fun appendPoint :: "Point \<Rightarrow> Element \<Rightarrow> Element" where
  "appendPoint point (PathElement i c sw opa pts) = PathElement i c sw opa (pts @ [point])"
| "appendPoint point el = el"

fun patchEndPoint :: "Point \<Rightarrow> Element \<Rightarrow> Element" where
  "patchEndPoint point (ShapeElement i c sw opa k sp ep) = ShapeElement i c sw opa k sp point"
| "patchEndPoint point el = el"

definition draw :: "Point \<Rightarrow> Whiteboard \<Rightarrow> Whiteboard option" where
  "draw point st =
     (if action st = none then Some st
      else if action st = erasing then
        (case getElementAtPosition (elements st) point of
           None \<Rightarrow> Some st
         | Some elementToErase \<Rightarrow>
             Some (st\<lparr>elements :=
                         filter (\<lambda>el. el_id el \<noteq> el_id elementToErase) (elements st)\<rparr>))
      else if action st = drawing then
        (let index = int (length (elements st)) - 1;
             element = at_index (elements st) index
         in if activeTool st = tool_pen then
              (case element of
                 None \<Rightarrow> None
               | Some el \<Rightarrow>
                   if isPath el
                   then Some (st\<lparr>elements := slice0 (elements st) index @ [appendPoint point el]\<rparr>)
                   else Some st)
            else if shapeOfTool (activeTool st) \<noteq> None then
              (case element of
                 None \<Rightarrow> None
               | Some el \<Rightarrow>
                   if isShape el
                   then Some (st\<lparr>elements := slice0 (elements st) index @ [patchEndPoint point el]\<rparr>)
                   else Some st)
            else Some st)
      else Some st)"

section \<open>Image import (Whiteboard.tsx, lines 791-862)\<close>

text \<open>
  \<open>a || b\<close> on numbers, where \<open>None\<close> is the \<open>undefined\<close> of \<open>canvasRef.current?.width\<close>
  for a null ref. \<open>fitImage\<close> is the size and position computed in \<open>img.onload\<close>; the
  literal \<open>0.8\<close> is the double nearest to 8/10.

  \<open>imageOnload\<close> is the whole callback. It runs some time after \<open>handleFileUpload\<close>,
  the handler that created it: inside \<open>setHistory\<close> it reads the \<open>historyIndex\<close> and the
  \<open>elements\<close> of the render in which \<open>handleFileUpload\<close> ran (the state \<open>captured\<close>),
  while \<open>setElements\<close>, \<open>setHistory\<close> and \<open>setHistoryIndex\<close> update the cells of the
  state \<open>st\<close> in which the callback runs. The canvas size, the window's inner size, the
  decoded image's size, the data URI and \<open>Date.now().toString()\<close> are parameters.
\<close>

definition orElse :: "number option \<Rightarrow> number \<Rightarrow> number" where
  "orElse a b = (case a of None \<Rightarrow> b | Some v \<Rightarrow> if truthy v then v else b)"

definition fitImage :: "number \<Rightarrow> number \<Rightarrow> number \<Rightarrow> number \<Rightarrow> number \<times> number \<times> Point" where
  "fitImage canvasWidth canvasHeight imgW imgH =
     (let maxWidth = jsMul canvasWidth (fl (8 / 10));
          maxHeight = jsMul canvasHeight (fl (8 / 10));
          (width1, height1) =
             (if jsGt imgW maxWidth
              then (let ratio = jsDiv maxWidth imgW in (maxWidth, jsMul imgH ratio))
              else (imgW, imgH));
          (width2, height2) =
             (if jsGt height1 maxHeight
              then (let ratio = jsDiv maxHeight height1 in (jsMul width1 ratio, maxHeight))
              else (width1, height1));
          position = Point (jsDiv (jsSub canvasWidth width2) (Num 2))
                           (jsDiv (jsSub canvasHeight height2) (Num 2))
      in (width2, height2, position))"

definition imageOnload ::
  "(number \<times> number) option \<Rightarrow> number \<Rightarrow> number \<Rightarrow> number \<Rightarrow> number \<Rightarrow> string \<Rightarrow> string
     \<Rightarrow> Whiteboard \<Rightarrow> Whiteboard \<Rightarrow> Whiteboard"
where
  "imageOnload canvas innerWidth innerHeight imgW imgH result now captured st =
     (let canvasWidth = orElse (map_option fst canvas) innerWidth;
          canvasHeight = orElse (map_option snd canvas) innerHeight;
          (w, h, position) = fitImage canvasWidth canvasHeight imgW imgH;
          newImageElement =
            ImageElement now ''#ffffff'' (Num 0) (Num 1) position result w h (Num 0)
      in st\<lparr>elements := elements st @ [newImageElement],
            history := slice0 (history st) (historyIndex captured + 1)
                         @ [elements captured @ [newImageElement]],
            historyIndex := historyIndex st + 1\<rparr>)"

section \<open>Projects (Whiteboard.tsx, lines 154-196)\<close>

text \<open>
  Of the project handlers only the writes to the scene and history cells are modelled;
  the project list is a parameter and the timestamps are left out.
\<close>

record WhiteboardProject =
  project_id :: string
  project_name :: string
  project_elements :: "Element list"

definition createNewProject :: "Whiteboard \<Rightarrow> Whiteboard" where
  "createNewProject st = st\<lparr>elements := [], history := [], historyIndex := - 1\<rparr>"

definition switchProject :: "WhiteboardProject list \<Rightarrow> string \<Rightarrow> Whiteboard \<Rightarrow> Whiteboard" where
  "switchProject projects projectId st =
     (case find (\<lambda>p. project_id p = projectId) projects of
        None \<Rightarrow> st
      | Some project \<Rightarrow>
          st\<lparr>elements := project_elements project, history := [], historyIndex := - 1\<rparr>)"

section \<open>Reachable states\<close>

text \<open>
  \<open>reaches s t\<close>: the component, once in state \<open>s\<close>, can later be in state \<open>t\<close>,
  through the handlers above, through the setters handed to the toolbar and the colour
  picker, and through the \<open>setElements(mostRecent.elements)\<close> of the mount effect, which
  may store any saved scene. An image callback runs in a state \<open>t\<close> that comes after the
  state \<open>c\<close> whose render created it. The reachable states are those that the initial
  \<open>useState\<close> values reach.
\<close>

inductive reaches :: "Whiteboard \<Rightarrow> Whiteboard \<Rightarrow> bool" where
  r_refl: "reaches s s"
| r_load: "reaches s t \<Longrightarrow> reaches s (t\<lparr>elements := els\<rparr>)"
| r_tool: "reaches s t \<Longrightarrow> reaches s (t\<lparr>activeTool := tool\<rparr>)"
| r_color: "reaches s t \<Longrightarrow> reaches s (t\<lparr>selectedColor := c\<rparr>)"
| r_width: "reaches s t \<Longrightarrow> reaches s (t\<lparr>penWidth := w\<rparr>)"
| r_opacity: "reaches s t \<Longrightarrow> reaches s (t\<lparr>penOpacity := w\<rparr>)"
| r_start: "reaches s t \<Longrightarrow> reaches s (startDrawing point now t)"
| r_draw: "reaches s t \<Longrightarrow> draw point t = Some t' \<Longrightarrow> reaches s t'"
| r_finish: "reaches s t \<Longrightarrow> reaches s (finishDrawing t)"
| r_text: "reaches s t \<Longrightarrow> reaches s (handleTextChange i newText t)"
| r_delete: "reaches s t \<Longrightarrow> reaches s (handleElementDelete i t)"
| r_position: "reaches s t \<Longrightarrow> reaches s (handlePositionChange i newPosition t)"
| r_text_resize: "reaches s t \<Longrightarrow> reaches s (handleTextResize i nw nh t)"
| r_note_color: "reaches s t \<Longrightarrow> reaches s (handleNoteColorChange i newColor t)"
| r_image_resize: "reaches s t \<Longrightarrow> reaches s (handleImageResize i nw nh t)"
| r_image_rotate: "reaches s t \<Longrightarrow> reaches s (handleImageRotate i nr t)"
| r_undo: "reaches s t \<Longrightarrow> handleUndo t = Some t' \<Longrightarrow> reaches s t'"
| r_redo: "reaches s t \<Longrightarrow> handleRedo t = Some t' \<Longrightarrow> reaches s t'"
| r_clear: "reaches s t \<Longrightarrow> reaches s (confirmClear t)"
| r_image: "reaches s c \<Longrightarrow> reaches c t \<Longrightarrow>
     reaches s (imageOnload canvas innerWidth innerHeight imgW imgH result now c t)"
| r_new_project: "reaches s t \<Longrightarrow> reaches s (createNewProject t)"
| r_switch: "reaches s t \<Longrightarrow> reaches s (switchProject projects projectId t)"

definition reachable :: "Whiteboard \<Rightarrow> bool" where
  "reachable st = reaches initialWhiteboard st"

section \<open>Vocabulary of the statements and proofs\<close>

text \<open>
  \<open>jump st j\<close> moves the cursor to entry \<open>j\<close> and shows that entry; a state is
  \<open>aligned\<close> when the scene on screen is the entry under the cursor, and \<open>atTip\<close> when
  moreover the cursor is on the last entry.
\<close>

definition jump :: "Whiteboard \<Rightarrow> int \<Rightarrow> Whiteboard" where
  "jump st j = st\<lparr>historyIndex := j, elements := history st ! nat j\<rparr>"

definition aligned :: "Whiteboard \<Rightarrow> bool" where
  "aligned st = (0 \<le> historyIndex st \<and> historyIndex st < int (length (history st))
     \<and> elements st = history st ! nat (historyIndex st))"

definition atTip :: "Whiteboard \<Rightarrow> bool" where
  "atTip st = (history st \<noteq> [] \<and> historyIndex st = int (length (history st)) - 1
     \<and> elements st = last (history st))"

text \<open>Two overlapping rectangles, used in the concrete instances below.\<close>

definition exampleA :: Element where
  "exampleA = ShapeElement ''1'' ''#000000'' (Num 3) (Num 1) rectangle (pt 0 0) (pt 100 50)"

definition exampleB :: Element where
  "exampleB = ShapeElement ''2'' ''#000000'' (Num 3) (Num 1) rectangle (pt 25 0) (pt 150 100)"

text \<open>
  A path of a single point, a state with the eraser active on a one-element scene, and one
  with the eraser active on a rectangle below the single-point path.
\<close>

definition exampleDot :: Element where
  "exampleDot = PathElement ''3'' ''#000000'' (Num 3) (Num 1) [pt 50 25]"

definition exampleState :: Whiteboard where
  "exampleState =
     initialWhiteboard\<lparr>activeTool := tool_eraser, elements := [exampleA], action := erasing\<rparr>"

definition dotState :: Whiteboard where
  "dotState =
     initialWhiteboard\<lparr>activeTool := tool_eraser, elements := [exampleA, exampleDot],
       action := erasing\<rparr>"

text \<open>
  \<open>distanceRadicand\<close> is the argument that \<open>distanceToSegment\<close> passes to
  \<open>Math.sqrt\<close>.
\<close>

definition distanceRadicand :: "Point \<Rightarrow> Point \<Rightarrow> Point \<Rightarrow> number" where
  "distanceRadicand point p1 p2 =
     (let A = jsSub (px point) (px p1);
          B = jsSub (py point) (py p1);
          C = jsSub (px p2) (px p1);
          D = jsSub (py p2) (py p1);
          dot = jsAdd (jsMul A C) (jsMul B D);
          lenSq = jsAdd (jsMul C C) (jsMul D D);
          param = (if jsNe lenSq (Num 0) then jsDiv dot lenSq else Num (- 1));
          xx = (if jsLt param (Num 0) then px p1
                else if jsGt param (Num 1) then px p2
                else jsAdd (px p1) (jsMul param C));
          yy = (if jsLt param (Num 0) then py p1
                else if jsGt param (Num 1) then py p2
                else jsAdd (py p1) (jsMul param D));
          dx = jsSub (px point) xx;
          dy = jsSub (py point) yy
      in jsAdd (jsMul dx dx) (jsMul dy dy))"

text \<open>
  The race of the image import: the file is chosen in the state \<open>raceChosen\<close>, one click
  with the text tool follows (\<open>raceClicked\<close>), and then the image callback runs
  (\<open>raceOne\<close>); in \<open>raceTwo\<close> two clicks precede the callback.
\<close>

definition raceChosen :: Whiteboard where
  "raceChosen = initialWhiteboard\<lparr>activeTool := tool_text\<rparr>"

definition raceClicked :: Whiteboard where
  "raceClicked = startDrawing (pt 10 10) ''1'' raceChosen"

definition raceOne :: Whiteboard where
  "raceOne =
     imageOnload (Some (Num 1000, Num 800)) (Num 1000) (Num 800) (Num 2000) (Num 1000)
       ''data:'' ''2'' raceChosen raceClicked"

definition raceTwo :: Whiteboard where
  "raceTwo =
     imageOnload (Some (Num 1000, Num 800)) (Num 1000) (Num 800) (Num 2000) (Num 1000)
       ''data:'' ''3'' raceChosen (startDrawing (pt 20 20) ''2'' raceClicked)"

text \<open>
  \<open>roundoff\<close> is the unit roundoff of binary64: a rounding to nearest changes a value in
  the normal range by at most this fraction of it.
\<close>

definition roundoff :: real where
  "roundoff = 2 powi (- 53)"

section \<open>Rounding lemmas\<close>

lemma expoUp_bounds:
  "2 powi e \<le> a \<Longrightarrow>
   2 powi (expoUp n a e) \<le> a \<and> e \<le> expoUp n a e \<and> expoUp n a e \<le> e + int n
   \<and> (a < 2 powi (expoUp n a e + 1) \<or> expoUp n a e = e + int n)"
proof (induction n arbitrary: e)
  case 0
  then show ?case by simp
next
  case (Suc n)
  show ?case
  proof (cases "a < 2 powi (e + 1)")
    case True
    then show ?thesis using Suc.prems by simp
  next
    case False
    then have "2 powi (e + 1) \<le> a" by simp
    from Suc.IH[OF this] show ?thesis using False by auto
  qed
qed

lemma expoDown_bounds:
  "a < 2 powi (e + 1) \<Longrightarrow>
   a < 2 powi (expoDown n a e + 1) \<and> expoDown n a e \<le> e \<and> e - int n \<le> expoDown n a e
   \<and> (2 powi (expoDown n a e) \<le> a \<or> expoDown n a e = e - int n)"
proof (induction n arbitrary: e)
  case 0
  then show ?case by simp
next
  case (Suc n)
  show ?case
  proof (cases "2 powi e \<le> a")
    case True
    then show ?thesis using Suc.prems by simp
  next
    case False
    then have "a < 2 powi (e - 1 + 1)" by simp
    from Suc.IH[OF this] show ?thesis using False by auto
  qed
qed

lemma expo_range: "- 1022 \<le> expo a \<and> expo a \<le> 1024"
proof (cases "1 \<le> a")
  case True
  then have "2 powi 0 \<le> a" by simp
  from expoUp_bounds[OF this, of 1024] show ?thesis using True by (simp add: expo_def)
next
  case False
  then have "a < 2 powi (- 1 + 1)" by simp
  from expoDown_bounds[OF this, of 1021] show ?thesis using False by (simp add: expo_def)
qed

lemma expo_lower: "2 powi (expo a) \<le> a \<or> expo a = - 1022"
proof (cases "1 \<le> a")
  case True
  then have "2 powi 0 \<le> a" by simp
  from expoUp_bounds[OF this, of 1024] show ?thesis using True by (simp add: expo_def)
next
  case False
  then have "a < 2 powi (- 1 + 1)" by simp
  from expoDown_bounds[OF this, of 1021] show ?thesis using False by (simp add: expo_def)
qed

lemma expo_upper: "a < 2 powi (expo a + 1) \<or> expo a = 1024"
proof (cases "1 \<le> a")
  case True
  then have "2 powi 0 \<le> a" by simp
  from expoUp_bounds[OF this, of 1024] show ?thesis using True by (simp add: expo_def)
next
  case False
  then have "a < 2 powi (- 1 + 1)" by simp
  from expoDown_bounds[OF this, of 1021] show ?thesis using False by (simp add: expo_def)
qed

lemma expo_top: "expo a = 1024 \<Longrightarrow> 2 powi 1024 \<le> a"
  using expo_lower[of a] by auto

lemma expo_eqI:
  assumes lo: "2 powi e \<le> a" and hi: "a < 2 powi (e + 1)"
    and e: "- 1022 \<le> e" "e \<le> 1023"
  shows "expo a = e"
proof -
  have two: "(1::real) \<le> 2" by simp
  have up: "a < 2 powi (expo a + 1)"
  proof (rule ccontr)
    assume "\<not> a < 2 powi (expo a + 1)"
    then have "expo a = 1024" using expo_upper[of a] by blast
    then have "2 powi 1024 \<le> a" by (rule expo_top)
    moreover have "(2::real) powi (e + 1) \<le> 2 powi 1024"
      using e by (intro power_int_increasing) simp_all
    ultimately show False using hi by linarith
  qed
  have low: "2 powi (expo a) \<le> a"
  proof (rule ccontr)
    assume n: "\<not> 2 powi (expo a) \<le> a"
    then have "expo a = - 1022" using expo_lower[of a] by blast
    moreover have "(2::real) powi (- 1022) \<le> 2 powi e"
      using e by (intro power_int_increasing) simp_all
    ultimately show False using n lo by simp
  qed
  have "expo a < e + 1"
  proof (rule ccontr)
    assume "\<not> expo a < e + 1"
    then have "(2::real) powi (e + 1) \<le> 2 powi (expo a)"
      by (intro power_int_increasing) simp_all
    then show False using low hi by linarith
  qed
  moreover have "e < expo a + 1"
  proof (rule ccontr)
    assume "\<not> e < expo a + 1"
    then have "(2::real) powi (expo a + 1) \<le> 2 powi e"
      by (intro power_int_increasing) simp_all
    then show False using up lo by linarith
  qed
  ultimately show ?thesis by simp
qed

lemma roundEven_eqI:
  assumes "\<bar>r - of_int m\<bar> < 1 / 2"
  shows "roundEven r = m"
proof (cases "of_int m \<le> r")
  case True
  then have "\<lfloor>r\<rfloor> = m" using assms by (intro floor_unique) linarith+
  then show ?thesis using assms True by (simp add: roundEven_def)
next
  case False
  have c: "real_of_int (m - 1) = real_of_int m - 1" by simp
  have f: "\<lfloor>r\<rfloor> = m - 1"
  proof (rule floor_unique)
    show "real_of_int (m - 1) \<le> r" unfolding c using assms False by linarith
    show "r < real_of_int (m - 1) + 1" unfolding c using assms False by linarith
  qed
  have "1 / 2 < r - real_of_int (m - 1)" unfolding c using assms False by linarith
  then show ?thesis using f by (simp add: roundEven_def Let_def)
qed

lemma fl_eqI:
  assumes lo: "2 powi e \<le> \<bar>x\<bar>" and hi: "\<bar>x\<bar> < 2 powi (e + 1)"
    and e: "- 1022 \<le> e" "e \<le> 1022"
    and m: "\<bar>x / 2 powi (e - 52) - of_int m\<bar> < 1 / 2" "m \<noteq> 0"
  shows "fl x = Num (of_int m * 2 powi (e - 52))"
proof -
  have ex: "expo \<bar>x\<bar> = e" using lo hi e by (intro expo_eqI) simp_all
  have "0 < (2::real) powi e" by simp
  then have "0 < \<bar>x\<bar>" using lo by linarith
  then have nz: "x \<noteq> 0" by simp
  have r: "roundEven (x / 2 powi (e - 52)) = m" by (rule roundEven_eqI[OF m(1)])
  show ?thesis using nz ex r e m(2) by (simp add: fl_def Let_def)
qed

lemma fl_sqrt_eqI:
  assumes lo: "((2::real) powi e)\<^sup>2 \<le> s" and hi: "s < (2 powi (e + 1))\<^sup>2"
    and e: "- 1022 \<le> e" "e \<le> 1022"
    and m: "0 < m" "((of_int m - 1 / 2) * 2 powi (e - 52))\<^sup>2 < s"
      "s < ((of_int m + 1 / 2) * 2 powi (e - 52))\<^sup>2"
  shows "fl (sqrt s) = Num (of_int m * 2 powi (e - 52))"
proof (rule fl_eqI)
  have p: "0 < (2::real) powi (e - 52)" by simp
  have s0: "0 \<le> sqrt s"
  proof -
    have "0 \<le> ((2::real) powi e)\<^sup>2" by simp
    then have "0 \<le> s" using lo by linarith
    then show ?thesis by simp
  qed
  show "2 powi e \<le> \<bar>sqrt s\<bar>" using real_le_rsqrt[OF lo] s0 by simp
  have "sqrt s < 2 powi (e + 1)" by (rule real_less_lsqrt[OF _ hi]) simp
  then show "\<bar>sqrt s\<bar> < 2 powi (e + 1)" using s0 by simp
  show "- 1022 \<le> e" "e \<le> 1022" by (rule e)+
  show "m \<noteq> 0" using m(1) by simp
  have a: "(of_int m - 1 / 2) * 2 powi (e - 52) < sqrt s" by (rule real_less_rsqrt[OF m(2)])
  have "0 \<le> (real_of_int m + 1 / 2) * 2 powi (e - 52)" using m(1) by simp
  then have b: "sqrt s < (of_int m + 1 / 2) * 2 powi (e - 52)" by (rule real_less_lsqrt[OF _ m(3)])
  have "of_int m - 1 / 2 < sqrt s / 2 powi (e - 52)"
    using a p by (simp add: pos_less_divide_eq)
  moreover have "sqrt s / 2 powi (e - 52) < of_int m + 1 / 2"
    using b p by (simp add: pos_divide_less_eq)
  ultimately show "\<bar>sqrt s / 2 powi (e - 52) - of_int m\<bar> < 1 / 2" by linarith
qed

lemma fl_1: "fl 1 = Num 1"
  by code_simp

lemma jsSqrt_square: "0 \<le> r \<Longrightarrow> jsSqrt (Num (r * r)) = fl r"
proof -
  assume r: "0 \<le> r"
  have "sqrt (r * r) = r" using r by (simp add: real_sqrt_mult_self)
  moreover have "\<not> r * r < 0" using r by (simp add: not_less)
  ultimately show ?thesis by simp
qed

lemma roundEven_int: "roundEven (of_int n) = n"
  by (rule roundEven_eqI) simp

lemma roundEven_cases: "roundEven r = \<lfloor>r\<rfloor> \<or> roundEven r = \<lfloor>r\<rfloor> + 1"
  by (simp add: roundEven_def Let_def)

lemma roundEven_error: "\<bar>of_int (roundEven r) - r\<bar> \<le> 1 / 2"
proof -
  have f: "of_int \<lfloor>r\<rfloor> \<le> r" "r < of_int \<lfloor>r\<rfloor> + 1" by linarith+
  consider "r - of_int \<lfloor>r\<rfloor> < 1 / 2" | "1 / 2 < r - of_int \<lfloor>r\<rfloor>" | "r - of_int \<lfloor>r\<rfloor> = 1 / 2"
    by linarith
  then show ?thesis
  proof cases
    case 1
    then have "roundEven r = \<lfloor>r\<rfloor>" by (simp add: roundEven_def Let_def)
    then show ?thesis using 1 f by simp
  next
    case 2
    then have "roundEven r = \<lfloor>r\<rfloor> + 1" by (simp add: roundEven_def Let_def)
    then show ?thesis using 2 f by simp
  next
    case 3
    then show ?thesis using roundEven_cases[of r] f by auto
  qed
qed

lemma roundEven_le_int: "r \<le> of_int k \<Longrightarrow> roundEven r \<le> k"
proof -
  assume a: "r \<le> of_int k"
  have fk: "\<lfloor>r\<rfloor> \<le> k" using a by (simp add: floor_le_iff)
  show ?thesis
  proof (cases "\<lfloor>r\<rfloor> = k")
    case True
    then have "of_int k \<le> r" by (metis of_int_floor_le)
    then have "r = of_int k" using a by simp
    then show ?thesis by (simp add: roundEven_int)
  next
    case False
    then have "\<lfloor>r\<rfloor> + 1 \<le> k" using fk by simp
    then show ?thesis using roundEven_cases[of r] by auto
  qed
qed

lemma roundEven_ge_int: "of_int k \<le> r \<Longrightarrow> k \<le> roundEven r"
proof -
  assume "of_int k \<le> r"
  then have "k \<le> \<lfloor>r\<rfloor>" by (simp add: le_floor_iff)
  then show ?thesis using roundEven_cases[of r] by auto
qed

lemma expo_mono: "a \<le> b \<Longrightarrow> expo a \<le> expo b"
proof (rule ccontr)
  assume ab: "a \<le> b" and n: "\<not> expo a \<le> expo b"
  then have lt: "expo b + 1 \<le> expo a" by simp
  have "expo a \<noteq> - 1022" using lt expo_range[of b] by simp
  then have 1: "2 powi (expo a) \<le> a" using expo_lower[of a] by blast
  have "expo b \<noteq> 1024" using lt expo_range[of a] by simp
  then have 2: "b < 2 powi (expo b + 1)" using expo_upper[of b] by blast
  have "(2::real) powi (expo b + 1) \<le> 2 powi (expo a)"
    using lt by (intro power_int_increasing) simp_all
  then show False using 1 2 ab by linarith
qed

lemma expo_subnormal: "a < 2 powi (- 1022) \<Longrightarrow> expo a = - 1022"
proof (rule ccontr)
  assume a: "a < 2 powi (- 1022)" and n: "expo a \<noteq> - 1022"
  then have 1: "2 powi (expo a) \<le> a" using expo_lower[of a] by blast
  have "(2::real) powi (- 1022) \<le> 2 powi (expo a)"
    using expo_range[of a] by (intro power_int_increasing) simp_all
  then show False using 1 a by linarith
qed

lemma expo_normal:
  assumes "2 powi (- 1022) \<le> a" "a < 2 powi 1024"
  shows "2 powi (expo a) \<le> a \<and> a < 2 powi (expo a + 1) \<and> expo a \<le> 1023"
proof -
  have lo: "2 powi (expo a) \<le> a"
  proof (cases "expo a = - 1022")
    case True
    then show ?thesis using assms(1) by simp
  next
    case False
    then show ?thesis using expo_lower[of a] by blast
  qed
  have ne: "expo a \<noteq> 1024"
  proof
    assume "expo a = 1024"
    then have "2 powi 1024 \<le> a" by (rule expo_top)
    then show False using assms(2) by linarith
  qed
  then have hi: "a < 2 powi (expo a + 1)" using expo_upper[of a] by blast
  show ?thesis using lo hi ne expo_range[of a] by simp
qed

lemma fl_normal:
  assumes lo: "2 powi (- 1022) \<le> \<bar>x\<bar>" and hi: "\<bar>x\<bar> < 2 powi 1023"
  shows "\<exists>y. fl x = Num y \<and> \<bar>y - x\<bar> \<le> 2 powi (- 53) * \<bar>x\<bar>"
proof -
  define e where "e = expo \<bar>x\<bar>"
  define q :: real where "q = 2 powi (e - 52)"
  define r where "r = roundEven (x / q)"
  have "(2::real) powi 1023 \<le> 2 powi 1024" by (intro power_int_increasing) simp_all
  then have hi': "\<bar>x\<bar> < 2 powi 1024" using hi by linarith
  from expo_normal[OF lo hi'] have b: "2 powi e \<le> \<bar>x\<bar>" "\<bar>x\<bar> < 2 powi (e + 1)"
    by (simp_all add: e_def)
  have e1022: "e \<le> 1022"
  proof (rule ccontr)
    assume "\<not> e \<le> 1022"
    then have "(2::real) powi 1023 \<le> 2 powi e" by (intro power_int_increasing) simp_all
    then show False using b(1) hi by linarith
  qed
  have qpos: "0 < q" by (simp add: q_def)
  have x0: "x \<noteq> 0"
  proof
    assume "x = 0"
    moreover have "0 < (2::real) powi (- 1022)" by simp
    ultimately show False using lo by simp
  qed
  have q52: "q * 2 ^ 52 = 2 powi e"
  proof -
    have "(2::real) powi (e - 52) * 2 powi 52 = 2 powi (e - 52 + 52)"
      by (subst power_int_add) simp_all
    then show ?thesis by (simp add: q_def)
  qed
  have big: "2 ^ 52 \<le> \<bar>x / q\<bar>"
  proof -
    have "2 ^ 52 * q \<le> \<bar>x\<bar>" using b(1) q52 by (simp add: mult.commute)
    then have "2 ^ 52 \<le> \<bar>x\<bar> / q" using qpos by (simp add: pos_le_divide_eq)
    then show ?thesis using qpos by simp
  qed
  have err: "\<bar>of_int r - x / q\<bar> \<le> 1 / 2" unfolding r_def by (rule roundEven_error)
  have r0: "r \<noteq> 0"
  proof
    assume "r = 0"
    then have "\<bar>x / q\<bar> \<le> 1 / 2" using err by simp
    moreover have "(1::real) / 2 < 2 ^ 52" by simp
    ultimately show False using big by linarith
  qed
  have f: "fl x = Num (of_int r * q)"
    using x0 e1022 r0 by (simp add: fl_def Let_def e_def[symmetric] q_def[symmetric] r_def[symmetric])
  have "of_int r * q - x = (of_int r - x / q) * q" using qpos by (simp add: field_simps)
  then have "\<bar>of_int r * q - x\<bar> = \<bar>of_int r - x / q\<bar> * q" using qpos by (simp add: abs_mult)
  also have "\<dots> \<le> 1 / 2 * q" using err qpos by (intro mult_right_mono) simp_all
  also have "1 / 2 * q = 2 powi (- 53) * 2 powi e"
  proof -
    have "(2::real) powi (- 53) * 2 powi e = 2 powi (- 53 + e)"
      by (subst power_int_add) simp_all
    also have "- 53 + e = (e - 52) + (- 1)" by simp
    also have "(2::real) powi ((e - 52) + (- 1)) = 2 powi (e - 52) * 2 powi (- 1)"
      by (subst power_int_add) simp_all
    finally show ?thesis by (simp add: q_def)
  qed
  also have "\<dots> \<le> 2 powi (- 53) * \<bar>x\<bar>" using b(1) by (intro mult_left_mono) simp_all
  finally show ?thesis using f by blast
qed

lemma powi_split: "(2::real) powi (a + b) = 2 powi a * 2 powi b"
  by (subst power_int_add) simp_all

lemma powi_nonneg_int: "0 \<le> k \<Longrightarrow> (2::real) powi k = of_int (2 ^ nat k)"
  by (simp add: power_int_def)

lemma quantum_52: "(2::real) powi (e - 52) * 2 ^ 52 = 2 powi e"
proof -
  have "(2::real) powi (e - 52) * 2 powi 52 = 2 powi (e - 52 + 52)"
    by (simp only: powi_split)
  then show ?thesis by simp
qed

lemma quantum_53: "(2::real) powi (e - 52) * 2 ^ 53 = 2 powi (e + 1)"
proof -
  have "(2::real) powi (e - 52) * 2 powi 53 = 2 powi (e - 52 + 53)"
    by (simp only: powi_split)
  moreover have "e - 52 + 53 = e + 1" by simp
  ultimately show ?thesis by simp
qed

text \<open>The shape of a finite non-zero result of \<open>fl\<close>.\<close>

lemma fl_NumD:
  assumes "fl x = Num y" "x \<noteq> 0"
  shows "y = of_int (roundEven (x / 2 powi (expo \<bar>x\<bar> - 52))) * 2 powi (expo \<bar>x\<bar> - 52)"
    and "expo \<bar>x\<bar> \<noteq> 1024"
    and "\<not> (expo \<bar>x\<bar> = 1023 \<and> \<bar>roundEven (x / 2 powi (expo \<bar>x\<bar> - 52))\<bar> = 2 ^ 53)"
  using assms by (auto simp: fl_def Let_def split: if_splits)

lemma fl_step:
  assumes "x \<noteq> 0" "expo \<bar>x\<bar> \<le> 1022"
  shows "fl x = (if roundEven (x / 2 powi (expo \<bar>x\<bar> - 52)) = 0
                 then (if x < 0 then NegZero else Num 0)
                 else Num (of_int (roundEven (x / 2 powi (expo \<bar>x\<bar> - 52)))
                            * 2 powi (expo \<bar>x\<bar> - 52)))"
  using assms by (simp add: fl_def Let_def)

lemma fl_grid:
  assumes g: "x / 2 powi (expo \<bar>x\<bar> - 52) = of_int k" and x0: "x \<noteq> 0"
    and e: "expo \<bar>x\<bar> \<le> 1022 \<or> expo \<bar>x\<bar> = 1023 \<and> \<bar>k\<bar> \<noteq> 2 ^ 53"
  shows "fl x = Num x"
proof -
  define q :: real where "q = 2 powi (expo \<bar>x\<bar> - 52)"
  have qpos: "0 < q" by (simp add: q_def)
  have r: "roundEven (x / q) = k" using g by (simp add: roundEven_int q_def)
  have xk: "of_int k * q = x" using g qpos by (simp add: q_def field_simps)
  have k0: "k \<noteq> 0" using xk x0 by auto
  have nov: "\<not> (expo \<bar>x\<bar> = 1024 \<or> expo \<bar>x\<bar> = 1023 \<and> \<bar>k\<bar> = 2 ^ 53)" using e by auto
  have "fl x = (if expo \<bar>x\<bar> = 1024 \<or> expo \<bar>x\<bar> = 1023 \<and> \<bar>k\<bar> = 2 ^ 53
                then (if x < 0 then NegInfinity else Infinity)
                else if k = 0 then (if x < 0 then NegZero else Num 0)
                else Num (of_int k * q))"
    unfolding fl_def Let_def q_def[symmetric] r using x0 by (simp only: if_False)
  also have "\<dots> = Num x" using nov k0 xk by (simp only: if_False)
  finally show ?thesis .
qed

lemma expo_le_1022: "a < 2 powi 1023 \<Longrightarrow> expo a \<le> 1022"
proof (rule ccontr)
  assume a: "a < 2 powi 1023" and n: "\<not> expo a \<le> 1022"
  then have "expo a \<noteq> - 1022" by simp
  then have "2 powi (expo a) \<le> a" using expo_lower[of a] by blast
  moreover have "(2::real) powi 1023 \<le> 2 powi (expo a)"
    using n by (intro power_int_increasing) simp_all
  ultimately show False using a by linarith
qed

lemma fl_le:
  assumes x: "0 < x" "x \<le> y" and y: "fl y = Num y" "y < 2 powi 1023"
  shows "\<exists>z. fl x = Num z \<and> 0 \<le> z \<and> z \<le> y"
proof -
  define ex where "ex = expo \<bar>x\<bar>"
  define ey where "ey = expo \<bar>y\<bar>"
  define qx :: real where "qx = 2 powi (ex - 52)"
  define qy :: real where "qy = 2 powi (ey - 52)"
  define rx where "rx = roundEven (x / qx)"
  define ry where "ry = roundEven (y / qy)"
  have y0: "0 < y" using x by linarith
  have exy: "ex \<le> ey" unfolding ex_def ey_def using x y0 by (intro expo_mono) simp
  have ey1022: "ey \<le> 1022" unfolding ey_def using y(2) y0 by (intro expo_le_1022) simp
  have yr: "y = of_int ry * qy"
    using fl_NumD(1)[OF y(1)] y0 by (simp add: ry_def qy_def ey_def)
  have qpos: "0 < qx" by (simp add: qx_def)
  have "qy = qx * 2 powi (ey - ex)"
  proof -
    have "ey - 52 = (ex - 52) + (ey - ex)" by simp
    then show ?thesis unfolding qx_def qy_def by (simp only: powi_split)
  qed
  also have "2 powi (ey - ex) = real_of_int (2 ^ nat (ey - ex))"
    using exy by (intro powi_nonneg_int) simp
  finally have qyx: "qy = qx * real_of_int (2 ^ nat (ey - ex))" .
  define k where "k = ry * 2 ^ nat (ey - ex)"
  have yk: "y = of_int k * qx" unfolding k_def using yr qyx by simp
  have "x / qx \<le> y / qx" using x(2) qpos by (simp add: divide_right_mono)
  also have "y / qx = of_int k" using yk qpos by simp
  finally have rk: "rx \<le> k" unfolding rx_def by (rule roundEven_le_int)
  have "real_of_int 0 \<le> x / qx" using x(1) qpos by simp
  then have r0: "0 \<le> rx" unfolding rx_def by (rule roundEven_ge_int)
  have f: "fl x = Num (of_int rx * qx)"
  proof -
    have "expo \<bar>x\<bar> \<le> 1022" "x \<noteq> 0" using exy ey1022 x(1) by (simp_all add: ex_def)
    from fl_step[OF this(2,1)]
    have "fl x = (if rx = 0 then (if x < 0 then NegZero else Num 0) else Num (of_int rx * qx))"
      unfolding rx_def qx_def ex_def .
    then show ?thesis using x(1) by simp
  qed
  have "of_int rx * qx \<le> of_int k * qx" using rk qpos by (intro mult_right_mono) simp_all
  moreover have "0 \<le> of_int rx * qx" using r0 qpos by simp
  ultimately show ?thesis using f yk by auto
qed

lemma fl_ge:
  assumes y: "0 < y" "y \<le> x" "fl y = Num y" and x: "x < 2 powi 1023"
  shows "\<exists>z. fl x = Num z \<and> y \<le> z"
proof -
  define ex where "ex = expo \<bar>x\<bar>"
  define ey where "ey = expo \<bar>y\<bar>"
  define qx :: real where "qx = 2 powi (ex - 52)"
  define qy :: real where "qy = 2 powi (ey - 52)"
  define rx where "rx = roundEven (x / qx)"
  define ry where "ry = roundEven (y / qy)"
  have x0: "0 < x" using y by linarith
  have eyx: "ey \<le> ex" unfolding ex_def ey_def using y x0 by (intro expo_mono) simp
  have ex1022: "ex \<le> 1022" unfolding ex_def using x x0 by (intro expo_le_1022) simp
  have yr: "y = of_int ry * qy"
    using fl_NumD(1)[OF y(3)] y(1) by (simp add: ry_def qy_def ey_def)
  have qpos: "0 < qx" "0 < qy" by (simp_all add: qx_def qy_def)
  have fs: "fl x = (if rx = 0 then Num 0 else Num (of_int rx * qx))"
  proof -
    have "expo \<bar>x\<bar> \<le> 1022" "x \<noteq> 0" using ex1022 x0 by (simp_all add: ex_def)
    from fl_step[OF this(2,1)]
    have "fl x = (if rx = 0 then (if x < 0 then NegZero else Num 0) else Num (of_int rx * qx))"
      unfolding rx_def qx_def ex_def .
    then show ?thesis using x0 by simp
  qed
  show ?thesis
  proof (cases "ey = ex")
    case True
    then have q: "qy = qx" by (simp add: qx_def qy_def)
    have "of_int ry = y / qx" using yr q qpos by simp
    also have "\<dots> \<le> x / qx" using y(2) qpos by (simp add: divide_right_mono)
    finally have "ry \<le> rx" unfolding rx_def by (rule roundEven_ge_int)
    moreover have "0 < ry"
    proof (rule ccontr)
      assume "\<not> 0 < ry"
      then have "real_of_int ry \<le> 0" by simp
      then have "real_of_int ry * qy \<le> 0" using qpos by (simp add: mult_le_0_iff)
      then show False using yr y(1) by simp
    qed
    ultimately have "rx \<noteq> 0" "real_of_int ry * qx \<le> real_of_int rx * qx"
      using qpos by (simp_all add: mult_right_mono)
    then show ?thesis using fs yr q by auto
  next
    case False
    then have lt: "ey + 1 \<le> ex" using eyx by simp
    have "ex \<noteq> - 1022" using lt expo_range[of "\<bar>y\<bar>"] by (simp add: ey_def)
    then have lo: "2 powi ex \<le> x" using expo_lower[of "\<bar>x\<bar>"] x0 by (simp add: ex_def)
    have "ey \<noteq> 1024" using lt ex1022 by simp
    then have yhi: "y < 2 powi (ey + 1)" using expo_upper[of "\<bar>y\<bar>"] y(1) by (simp add: ey_def)
    have "(2::real) powi (ey + 1) \<le> 2 powi ex" using lt by (intro power_int_increasing) simp_all
    then have y2: "y < 2 powi ex" using yhi by linarith
    have "qx * 2 ^ 52 \<le> x" using lo quantum_52[of ex] by (simp add: qx_def)
    then have "real_of_int (2 ^ 52) \<le> x / qx" using qpos by (simp add: pos_le_divide_eq mult.commute)
    then have r52: "2 ^ 52 \<le> rx" unfolding rx_def by (rule roundEven_ge_int)
    then have "(2::real) ^ 52 \<le> real_of_int rx"
      by (metis of_int_le_iff of_int_numeral of_int_power)
    then have "2 ^ 52 * qx \<le> real_of_int rx * qx"
      using qpos by (intro mult_right_mono) simp_all
    moreover have "2 powi ex = 2 ^ 52 * qx"
      using quantum_52[of ex] by (simp only: qx_def mult.commute)
    ultimately have "2 powi ex \<le> real_of_int rx * qx" by linarith
    moreover have "rx \<noteq> 0" using r52 by simp
    ultimately show ?thesis using fs y2 by auto
  qed
qed

lemma fl_idem:
  assumes "fl x = Num y"
  shows "fl y = Num y"
proof (cases "y = 0")
  case True
  then show ?thesis by (simp add: fl_def)
next
  case y0: False
  have x0: "x \<noteq> 0" using assms y0 by (auto simp: fl_def)
  define e where "e = expo \<bar>x\<bar>"
  define q :: real where "q = 2 powi (e - 52)"
  define r where "r = roundEven (x / q)"
  have yr: "y = of_int r * q" and e1024: "e \<noteq> 1024"
    and nov: "\<not> (e = 1023 \<and> \<bar>r\<bar> = 2 ^ 53)"
    using fl_NumD[OF assms x0] by (simp_all add: e_def q_def r_def)
  have qpos: "0 < q" by (simp add: q_def)
  have ay: "\<bar>y\<bar> = of_int \<bar>r\<bar> * q" using yr qpos by (simp add: abs_mult)
  have xhi: "\<bar>x\<bar> < 2 powi (e + 1)" using expo_upper[of "\<bar>x\<bar>"] e1024 by (simp add: e_def)
  have e1023: "e \<le> 1023" using expo_range[of "\<bar>x\<bar>"] e1024 by (simp add: e_def)
  have "\<bar>x\<bar> < q * 2 ^ 53" using xhi quantum_53[of e] by (simp add: q_def)
  then have "\<bar>x\<bar> / q < 2 ^ 53" using qpos by (simp add: pos_divide_less_eq mult.commute)
  moreover have "\<bar>x / q\<bar> = \<bar>x\<bar> / q" using qpos by simp
  ultimately have "x / q \<le> 2 ^ 53" "- (2 ^ 53) \<le> x / q" by linarith+
  then have "x / q \<le> real_of_int (2 ^ 53)" "real_of_int (- (2 ^ 53)) \<le> x / q" by simp_all
  then have "r \<le> 2 ^ 53" "- (2 ^ 53) \<le> r"
    unfolding r_def by (auto intro: roundEven_le_int roundEven_ge_int)
  then have r53: "\<bar>r\<bar> \<le> 2 ^ 53" by simp
  have big: "2 ^ 52 \<le> \<bar>r\<bar>" if lo: "2 powi e \<le> \<bar>x\<bar>"
  proof -
    have "q * 2 ^ 52 \<le> \<bar>x\<bar>" using lo quantum_52[of e] by (simp add: q_def)
    then have a: "2 ^ 52 \<le> \<bar>x\<bar> / q" using qpos by (simp add: pos_le_divide_eq mult.commute)
    show ?thesis
    proof (cases "0 \<le> x")
      case True
      then have "real_of_int (2 ^ 52) \<le> x / q" using a by simp
      then have "2 ^ 52 \<le> r" unfolding r_def by (rule roundEven_ge_int)
      then show ?thesis by simp
    next
      case False
      then have "\<bar>x\<bar> / q = - (x / q)" by simp
      then have "x / q \<le> real_of_int (- (2 ^ 52))" using a by simp
      then have "r \<le> - (2 ^ 52)" unfolding r_def by (rule roundEven_le_int)
      then show ?thesis by simp
    qed
  qed
  have r0: "r \<noteq> 0" using yr y0 by auto
  show ?thesis
  proof (cases "\<bar>r\<bar> = 2 ^ 53")
    case True
    then have e1022: "e \<le> 1022" using nov e1023 by simp
    have ay2: "\<bar>y\<bar> = 2 powi (e + 1)" using ay True quantum_53[of e] by (simp add: q_def mult.commute)
    have ex: "expo \<bar>y\<bar> = e + 1"
    proof (rule expo_eqI)
      show "2 powi (e + 1) \<le> \<bar>y\<bar>" using ay2 by simp
      have "(2::real) powi (e + 1) < 2 powi (e + 1 + 1)"
        by (intro power_int_strict_increasing) simp_all
      then show "\<bar>y\<bar> < 2 powi (e + 1 + 1)" using ay2 by simp
      show "- 1022 \<le> e + 1" using expo_range[of "\<bar>x\<bar>"] by (simp add: e_def)
      show "e + 1 \<le> 1023" using e1022 by simp
    qed
    have q2: "(2::real) powi (e + 1 - 52) = q * 2"
    proof -
      have "e + 1 - 52 = (e - 52) + 1" by simp
      then have "(2::real) powi (e + 1 - 52) = 2 powi (e - 52) * 2 powi 1" by (simp only: powi_split)
      then show ?thesis by (simp add: q_def)
    qed
    have "r = 2 ^ 53 \<or> r = - (2 ^ 53)" using True by linarith
    then have "r = 2 * 2 ^ 52 \<or> r = 2 * (- (2 ^ 52))" by simp
    then obtain h where h: "r = 2 * h" and h52: "\<bar>h\<bar> = 2 ^ 52" by auto
    have yh: "y = of_int h * (q * 2)" using yr h by simp
    then have "y / (q * 2) = of_int h" using qpos by simp
    then have g: "y / 2 powi (expo \<bar>y\<bar> - 52) = of_int h" by (simp only: ex q2)
    have "\<bar>h\<bar> \<noteq> 2 ^ 53" using h52 by simp
    then have "expo \<bar>y\<bar> \<le> 1022 \<or> expo \<bar>y\<bar> = 1023 \<and> \<bar>h\<bar> \<noteq> 2 ^ 53"
      using e1022 by (simp only: ex) auto
    with g y0 show ?thesis by (rule fl_grid)
  next
    case False
    then have rlt: "\<bar>r\<bar> < 2 ^ 53" using r53 by simp
    have yhi: "\<bar>y\<bar> < 2 powi (e + 1)"
    proof -
      have "real_of_int \<bar>r\<bar> < 2 ^ 53" using rlt by (metis of_int_less_iff of_int_numeral of_int_power)
      then have "real_of_int \<bar>r\<bar> * q < 2 ^ 53 * q" using qpos by (intro mult_strict_right_mono)
      moreover have "2 powi (e + 1) = 2 ^ 53 * q"
        using quantum_53[of e] by (simp only: q_def mult.commute)
      ultimately show ?thesis using ay by linarith
    qed
    have ex: "expo \<bar>y\<bar> = e"
    proof (cases "2 powi e \<le> \<bar>y\<bar>")
      case True
      show ?thesis
        by (rule expo_eqI[OF True yhi]) (use expo_range[of "\<bar>x\<bar>"] e1023 in \<open>simp_all add: e_def\<close>)
    next
      case ylow: False
      have "\<not> 2 powi e \<le> \<bar>x\<bar>"
      proof
        assume "2 powi e \<le> \<bar>x\<bar>"
        then have "2 ^ 52 \<le> \<bar>r\<bar>" by (rule big)
        then have "(2::real) ^ 52 \<le> real_of_int \<bar>r\<bar>"
          by (metis of_int_le_iff of_int_numeral of_int_power)
        then have "2 ^ 52 * q \<le> real_of_int \<bar>r\<bar> * q" using qpos by (intro mult_right_mono) simp_all
        moreover have "2 powi e = 2 ^ 52 * q"
          using quantum_52[of e] by (simp only: q_def mult.commute)
        ultimately have "2 powi e \<le> \<bar>y\<bar>" using ay by linarith
        then show False using ylow by simp
      qed
      then have em: "e = - 1022" using expo_lower[of "\<bar>x\<bar>"] by (simp add: e_def)
      then have "\<bar>y\<bar> < 2 powi (- 1022)" using ylow by simp
      then show ?thesis using em by (simp add: expo_subnormal)
    qed
    have "y / q = of_int r" using yr qpos by simp
    then have g: "y / 2 powi (expo \<bar>y\<bar> - 52) = of_int r" by (simp only: ex q_def)
    have "expo \<bar>y\<bar> \<le> 1022 \<or> expo \<bar>y\<bar> = 1023 \<and> \<bar>r\<bar> \<noteq> 2 ^ 53"
      using e1023 False by (simp only: ex) auto
    with g y0 show ?thesis by (rule fl_grid)
  qed
qed

lemma fl_int:
  assumes "\<bar>n\<bar> \<le> 2 ^ 53"
  shows "fl (of_int n) = Num (of_int n)"
proof (cases "n = 0")
  case True
  then show ?thesis by (simp add: fl_def)
next
  case False
  have one: "fl 1 = Num 1" by (rule fl_1)
  have big: "fl (2 ^ 53) = Num (2 ^ 53)" by code_simp
  have p: "(2::real) ^ 53 < 2 powi 1023" by simp
  have an: "1 \<le> \<bar>real_of_int n\<bar>" "\<bar>real_of_int n\<bar> \<le> 2 ^ 53"
  proof -
    have "1 \<le> \<bar>n\<bar>" using False by simp
    then show "1 \<le> \<bar>real_of_int n\<bar>" by (metis of_int_1 of_int_abs of_int_le_iff)
    have "real_of_int \<bar>n\<bar> \<le> real_of_int (2 ^ 53)" using assms by (simp only: of_int_le_iff)
    then show "\<bar>real_of_int n\<bar> \<le> 2 ^ 53" by simp
  qed
  define e where "e = expo \<bar>real_of_int n\<bar>"
  define q :: real where "q = 2 powi (e - 52)"
  have e0: "0 \<le> e"
    using expo_mono[of 1 "\<bar>real_of_int n\<bar>"] an(1) expo_eqI[of 0 1] by (simp add: e_def)
  have e53: "e \<le> 53"
    using expo_mono[of "\<bar>real_of_int n\<bar>" "2 ^ 53"] an(2) expo_eqI[of 53 "2 ^ 53"] by (simp add: e_def)
  have qpos: "0 < q" by (simp add: q_def)
  have "\<exists>k. real_of_int n / q = of_int k"
  proof (cases "e \<le> 52")
    case True
    have "(2::real) powi (52 - e) = of_int (2 ^ nat (52 - e))"
      using True by (intro powi_nonneg_int) simp
    moreover have "1 / q = 2 powi (52 - e)"
      unfolding q_def by (simp add: power_int_diff)
    ultimately have iq: "1 / q = real_of_int (2 ^ nat (52 - e))" by simp
    have "real_of_int n / q = real_of_int n * (1 / q)" by simp
    also have "\<dots> = real_of_int n * real_of_int (2 ^ nat (52 - e))" by (simp only: iq)
    also have "\<dots> = real_of_int (n * 2 ^ nat (52 - e))" by simp
    finally show ?thesis by blast
  next
    case False
    then have e: "e = 53" using e53 by simp
    have lo: "2 powi e \<le> \<bar>real_of_int n\<bar>"
      using expo_lower[of "\<bar>real_of_int n\<bar>"] e by (simp add: e_def)
    then have "\<bar>real_of_int n\<bar> = 2 ^ 53" using an(2) e by simp
    then have "real_of_int n = 2 ^ 53 \<or> real_of_int n = - (2 ^ 53)" by linarith
    moreover have "q = 2" by (simp add: q_def e)
    ultimately have "real_of_int n / q = of_int (2 ^ 52) \<or> real_of_int n / q = of_int (- (2 ^ 52))"
      by auto
    then show ?thesis by blast
  qed
  then obtain k where k: "real_of_int n / q = of_int k" by blast
  then have g: "real_of_int n / 2 powi (expo \<bar>real_of_int n\<bar> - 52) = of_int k"
    by (simp only: q_def e_def)
  have "expo \<bar>real_of_int n\<bar> \<le> 1022 \<or> expo \<bar>real_of_int n\<bar> = 1023 \<and> \<bar>k\<bar> \<noteq> 2 ^ 53"
    using e53 by (simp add: e_def)
  moreover have "real_of_int n \<noteq> 0" using False by simp
  ultimately show ?thesis using g by (intro fl_grid)
qed

lemma roundoff_val: "roundoff = 1 / 9007199254740992"
  by (simp add: roundoff_def power_int_minus)

lemma safe_range:
  fixes x :: real
  assumes "1 / 2 ^ 64 \<le> x" "x \<le> 2 ^ 64"
  shows "2 powi (- 1022) \<le> x" "x < 2 powi 1023"
proof -
  have "(2::real) powi (- 1022) \<le> 2 powi (- 64)" by (intro power_int_increasing) simp_all
  also have "\<dots> = 1 / 2 ^ 64" by (simp add: power_int_minus)
  finally show "2 powi (- 1022) \<le> x" using assms(1) by linarith
  have "(2::real) ^ 64 = 2 powi 64" by simp
  also have "\<dots> < 2 powi 1023" by (intro power_int_strict_increasing) simp_all
  finally show "x < 2 powi 1023" using assms(2) by linarith
qed

lemma fl_safe:
  assumes "1 / 2 ^ 64 \<le> x" "x \<le> 2 ^ 64"
  shows "\<exists>y. fl x = Num y \<and> (1 - roundoff) * x \<le> y \<and> y \<le> (1 + roundoff) * x \<and> 0 < y"
proof -
  have x0: "0 < x" using assms(1) by (smt (verit) divide_pos_pos zero_less_power zero_less_one)
  from safe_range[OF assms] x0 have "2 powi (- 1022) \<le> \<bar>x\<bar>" "\<bar>x\<bar> < 2 powi 1023" by simp_all
  from fl_normal[OF this] obtain y where y: "fl x = Num y" "\<bar>y - x\<bar> \<le> 2 powi (- 53) * \<bar>x\<bar>"
    by blast
  define t where "t = roundoff * x"
  have e: "\<bar>y - x\<bar> \<le> t" using y(2) x0 by (simp add: roundoff_def t_def)
  have t: "t < x" using x0 by (simp add: roundoff_val t_def)
  have "x - t \<le> y" "y \<le> x + t" "0 < y" using e t by linarith+
  moreover have "(1 - roundoff) * x = x - t" "(1 + roundoff) * x = x + t"
    by (simp_all add: algebra_simps t_def)
  ultimately show ?thesis using y(1) by auto
qed

lemma jsMul_pos: "0 < a \<Longrightarrow> 0 < b \<Longrightarrow> jsMul (Num a) (Num b) = fl (a * b)"
  by (simp add: jsMul_def)

lemma jsDiv_pos: "0 < a \<Longrightarrow> 0 < b \<Longrightarrow> jsDiv (Num a) (Num b) = fl (a / b)"
  by (simp add: jsDiv_def)

lemma jsSub_Num: "jsSub (Num a) (Num b) = fl (a - b)"
  by (simp add: jsSub_def jsAdd_def)

lemma jsAdd_Num: "jsAdd (Num a) (Num b) = fl (a + b)"
  by (simp add: jsAdd_def)

lemma jsGt_Num: "jsGt (Num a) (Num b) = (b < a)"
  by (simp add: jsGt_def jsLt_def)

lemma fl_08: "fl (8 / 10) = Num (3602879701896397 / 4503599627370496)"
  by code_simp

lemma sandwich:
  fixes K L :: real
  assumes "0 \<le> K" "a * K \<le> L" "L \<le> b * K" "1 - e \<le> a" "b \<le> 1 + e"
  shows "\<bar>L - K\<bar> \<le> e * K"
proof -
  define t where "t = e * K"
  have "(1 - e) * K \<le> a * K" "b * K \<le> (1 + e) * K"
    using assms(1,4,5) by (simp_all add: mult_right_mono)
  then have "K - t \<le> a * K" "b * K \<le> K + t" by (simp_all add: algebra_simps t_def)
  then have "\<bar>L - K\<bar> \<le> t" using assms(2,3) by linarith
  then show ?thesis by (simp only: t_def)
qed

lemma two_roundings:
  fixes x y z :: real
  assumes "0 \<le> x" "(1 - roundoff) * x \<le> y" "y \<le> (1 + roundoff) * x"
    and "(1 - roundoff) * y \<le> z" "z \<le> (1 + roundoff) * y"
  shows "(1 - roundoff)\<^sup>2 * x \<le> z" "z \<le> (1 + roundoff)\<^sup>2 * x"
proof -
  have a: "0 \<le> 1 - roundoff" "0 \<le> 1 + roundoff" by (simp_all add: roundoff_val)
  have "(1 - roundoff) * ((1 - roundoff) * x) \<le> (1 - roundoff) * y"
    using assms(2) a(1) by (rule mult_left_mono)
  then show "(1 - roundoff)\<^sup>2 * x \<le> z" using assms(4) by (simp add: power2_eq_square mult.assoc)
  have "(1 + roundoff) * y \<le> (1 + roundoff) * ((1 + roundoff) * x)"
    using assms(3) a(2) by (rule mult_left_mono)
  then show "z \<le> (1 + roundoff)\<^sup>2 * x" using assms(5) by (simp add: power2_eq_square mult.assoc)
qed

lemma cap_rounded:
  assumes "1 \<le> c" "c \<le> 2 ^ 32"
  shows "\<exists>m. jsMul (Num c) (fl (8 / 10)) = Num m \<and> fl m = Num m \<and> 1 / 2 \<le> m
            \<and> m \<le> 81 / 100 * c \<and> m \<le> 8 / 10 * c * (1 + 2 powi (- 51))"
proof -
  define c8 :: real where "c8 = 3602879701896397 / 4503599627370496"
  have c8: "8 / 10 \<le> c8" "c8 \<le> 8 / 10 * (1 + roundoff)" "0 < c8"
    by (simp_all add: c8_def roundoff_val)
  have lo: "8 / 10 * 1 \<le> c8 * c" using c8(1) assms(1) by (intro mult_mono) simp_all
  have hi: "c8 * c \<le> 8 / 10 * (1 + roundoff) * c"
    using c8(2) assms(1) by (intro mult_right_mono) simp_all
  have hi2: "8 / 10 * (1 + roundoff) * c \<le> 1 * 2 ^ 32"
    using assms by (intro mult_mono) (simp_all add: roundoff_val)
  have "1 / 2 ^ 64 \<le> c * c8" "c * c8 \<le> 2 ^ 64" using lo hi hi2 by (simp_all add: mult.commute)
  from fl_safe[OF this] obtain m where m: "fl (c * c8) = Num m"
    "(1 - roundoff) * (c * c8) \<le> m" "m \<le> (1 + roundoff) * (c * c8)" by blast
  have "jsMul (Num c) (Num c8) = Num m"
    using assms(1) c8(3) m(1) by (simp add: jsMul_pos)
  then have mul: "jsMul (Num c) (fl (8 / 10)) = Num m"
    by (simp only: fl_08 c8_def)
  have idem: "fl m = Num m" using m(1) by (rule fl_idem)
  have "(1 - roundoff) * (8 / 10) \<le> (1 - roundoff) * (c * c8)"
    using lo by (intro mult_left_mono) (simp_all add: roundoff_val mult.commute)
  then have low: "1 / 2 \<le> m" using m(2) by (simp add: roundoff_val)
  have "(1 + roundoff) * (c * c8) \<le> (1 + roundoff) * (8 / 10 * (1 + roundoff) * c)"
    using hi by (intro mult_left_mono) (simp_all add: roundoff_val mult.commute)
  moreover have "(1 + roundoff) * (8 / 10 * (1 + roundoff) * c) = (8 / 10 * (1 + roundoff)\<^sup>2) * c"
    by (simp add: power2_eq_square)
  ultimately have "(1 + roundoff) * (c * c8) \<le> (8 / 10 * (1 + roundoff)\<^sup>2) * c"
    by (simp only:)
  with m(3) have up: "m \<le> (8 / 10 * (1 + roundoff)\<^sup>2) * c" by (rule order_trans)
  have "(8 / 10 * (1 + roundoff)\<^sup>2) * c \<le> 81 / 100 * c"
    using assms(1) by (intro mult_right_mono) (simp_all add: roundoff_val power2_eq_square)
  moreover have "(8 / 10 * (1 + roundoff)\<^sup>2) * c \<le> (8 / 10 * (1 + 2 powi (- 51))) * c"
    using assms(1) by (intro mult_right_mono)
      (simp_all add: roundoff_val power2_eq_square power_int_minus)
  ultimately have "m \<le> 81 / 100 * c" "m \<le> 8 / 10 * c * (1 + 2 powi (- 51))"
    using up by (simp_all add: mult_ac)
  then show ?thesis using mul idem low by blast
qed

lemma scale_rounded:
  assumes m: "1 / 2 \<le> m" and a: "m < a" "a \<le> 2 ^ 32"
    and b: "fl b = Num b" "1 / 2 \<le> b" "b \<le> 2 ^ 32"
  shows "\<exists>r s. jsDiv (Num m) (Num a) = Num r \<and> jsMul (Num b) (Num r) = Num s \<and> fl s = Num s
               \<and> 0 < s \<and> s \<le> b
               \<and> (1 - roundoff)\<^sup>2 * (b * m) \<le> s * a \<and> s * a \<le> (1 + roundoff)\<^sup>2 * (b * m)"
proof -
  have pos: "0 < m" "0 < a" "0 < b" using m a b by linarith+
  have q1: "m / a \<le> 1" using a(1) pos by simp
  have "1 / 2 / 2 ^ 32 \<le> m / a" using m a(2) pos by (intro frac_le) simp_all
  then have q0: "1 / 2 ^ 33 \<le> m / a" by simp
  have "(1::real) / 2 ^ 64 \<le> 1 / 2 ^ 33" "(1::real) \<le> 2 ^ 64" by simp_all
  then have "1 / 2 ^ 64 \<le> m / a" "m / a \<le> 2 ^ 64" using q0 q1 by linarith+
  from fl_safe[OF this] obtain r where r: "fl (m / a) = Num r"
    "(1 - roundoff) * (m / a) \<le> r" "r \<le> (1 + roundoff) * (m / a)" "0 < r" by blast
  have "0 < m / a" using pos by simp
  from fl_le[OF this q1 fl_1] obtain z where "fl (m / a) = Num z" "z \<le> 1" by auto
  then have r1: "r \<le> 1" using r(1) by simp
  have "(1 - roundoff) * (1 / 2 ^ 33) \<le> (1 - roundoff) * (m / a)"
    using q0 by (intro mult_left_mono) (simp_all add: roundoff_val)
  then have r0: "1 / 2 ^ 34 \<le> r" using r(2) by (simp add: roundoff_val)
  have div: "jsDiv (Num m) (Num a) = Num r" using pos r(1) by (simp add: jsDiv_pos)
  have p1: "b * r \<le> b" using r1 pos by simp
  have "1 / 2 * (1 / 2 ^ 34) \<le> b * r" using b(2) r0 by (intro mult_mono) simp_all
  then have "1 / 2 ^ 64 \<le> b * r" "b * r \<le> 2 ^ 64" using p1 b(3) by simp_all
  from fl_safe[OF this] obtain s where s: "fl (b * r) = Num s"
    "(1 - roundoff) * (b * r) \<le> s" "s \<le> (1 + roundoff) * (b * r)" "0 < s" by blast
  have "b < 2 powi 1023" using safe_range(2)[of b] pos b(3) by simp
  moreover have "0 < b * r" using pos r(4) by simp
  ultimately obtain z where "fl (b * r) = Num z" "z \<le> b" using fl_le[OF _ p1 b(1)] by auto
  then have sb: "s \<le> b" using s(1) by simp
  have mul: "jsMul (Num b) (Num r) = Num s" using pos r(4) s(1) by (simp add: jsMul_pos)
  have idem: "fl s = Num s" using s(1) by (rule fl_idem)
  have ra: "(1 - roundoff) * m \<le> r * a" "r * a \<le> (1 + roundoff) * m"
    using r(2,3) pos by (simp_all add: field_simps)
  have x1: "(1 - roundoff) * (b * m) \<le> b * r * a"
  proof -
    have "b * ((1 - roundoff) * m) \<le> b * (r * a)" using ra(1) pos by (intro mult_left_mono) simp_all
    then show ?thesis by (simp add: mult_ac)
  qed
  have x2: "b * r * a \<le> (1 + roundoff) * (b * m)"
  proof -
    have "b * (r * a) \<le> b * ((1 + roundoff) * m)" using ra(2) pos by (intro mult_left_mono) simp_all
    then show ?thesis by (simp add: mult_ac)
  qed
  have y1: "(1 - roundoff) * (b * r * a) \<le> s * a"
  proof -
    have "(1 - roundoff) * (b * r) * a \<le> s * a" using s(2) pos by (intro mult_right_mono) simp_all
    then show ?thesis by (simp add: mult_ac)
  qed
  have y2: "s * a \<le> (1 + roundoff) * (b * r * a)"
  proof -
    have "s * a \<le> (1 + roundoff) * (b * r) * a" using s(3) pos by (intro mult_right_mono) simp_all
    then show ?thesis by (simp add: mult_ac)
  qed
  have "0 \<le> b * m" using pos by simp
  from two_roundings[OF this x1 x2 y1 y2] div mul idem s(4) sb show ?thesis by blast
qed

lemma centre_rounded:
  assumes "1 \<le> c" "c \<le> 2 ^ 32" "0 < w" "w \<le> 81 / 100 * c"
  shows "\<exists>x. jsDiv (jsSub (Num c) (Num w)) (Num 2) = Num x
             \<and> \<bar>x - (c - w) / 2\<bar> \<le> 2 powi (- 51) * ((c - w) / 2)"
proof -
  have d0: "19 / 100 \<le> c - w" "c - w \<le> 2 ^ 32" using assms by linarith+
  then have "1 / 2 ^ 64 \<le> c - w" "c - w \<le> 2 ^ 64" by simp_all
  from fl_safe[OF this] obtain d where d: "fl (c - w) = Num d"
    "(1 - roundoff) * (c - w) \<le> d" "d \<le> (1 + roundoff) * (c - w)" "0 < d" by blast
  have "(1 - roundoff) * (19 / 100) \<le> (1 - roundoff) * (c - w)"
    using d0(1) by (intro mult_left_mono) (simp_all add: roundoff_val)
  then have dl: "1 / 8 \<le> d" using d(2) by (simp add: roundoff_val)
  have "(1 + roundoff) * (c - w) \<le> (1 + roundoff) * 2 ^ 32"
    using d0(2) by (intro mult_left_mono) (simp_all add: roundoff_val)
  then have dh: "d \<le> 2 ^ 33" using d(3) by (simp add: roundoff_val)
  have "1 / 2 ^ 64 \<le> d / 2" "d / 2 \<le> 2 ^ 64" using dl dh by simp_all
  from fl_safe[OF this] obtain x where x: "fl (d / 2) = Num x"
    "(1 - roundoff) * (d / 2) \<le> x" "x \<le> (1 + roundoff) * (d / 2)" by blast
  have eq: "jsDiv (jsSub (Num c) (Num w)) (Num 2) = Num x"
    using d(1,4) x(1) by (simp add: jsSub_Num jsDiv_pos)
  have h1: "(1 - roundoff) * ((c - w) / 2) \<le> d / 2" "d / 2 \<le> (1 + roundoff) * ((c - w) / 2)"
    using d(2,3) by simp_all
  have "0 \<le> (c - w) / 2" using d0(1) by simp
  from two_roundings[OF this h1 x(2,3)]
  have "(1 - roundoff)\<^sup>2 * ((c - w) / 2) \<le> x" "x \<le> (1 + roundoff)\<^sup>2 * ((c - w) / 2)" .
  moreover have "1 - 2 powi (- 51) \<le> (1 - roundoff)\<^sup>2" "(1 + roundoff)\<^sup>2 \<le> 1 + 2 powi (- 51)"
    by (simp_all add: roundoff_val power2_eq_square power_int_minus)
  ultimately have "\<bar>x - (c - w) / 2\<bar> \<le> 2 powi (- 51) * ((c - w) / 2)"
    using \<open>0 \<le> (c - w) / 2\<close> by (intro sandwich[where a = "(1 - roundoff)\<^sup>2" and b = "(1 + roundoff)\<^sup>2"])
  then show ?thesis using eq by blast
qed

section \<open>History lemmas\<close>

lemma slice0_nonneg: "0 \<le> e \<Longrightarrow> slice0 xs e = take (nat e) xs"
  by (simp add: slice0_def)

lemma jump_self: "aligned st \<Longrightarrow> jump st (historyIndex st) = st"
  by (simp add: jump_def aligned_def)

lemma aligned_jump: "0 \<le> j \<Longrightarrow> j < int (length (history st)) \<Longrightarrow> aligned (jump st j)"
  by (simp add: jump_def aligned_def)

lemma jump_jump: "jump (jump st j) k = jump st k"
  by (simp add: jump_def)

lemma undo_aligned:
  "handleUndo st = Some (jump st (max 0 (historyIndex st - 1)))" if "aligned st"
proof (cases "historyIndex st > 0")
  case True
  then have m: "max 0 (historyIndex st - 1) = historyIndex st - 1"
    by simp
  show ?thesis using True that unfolding m
    by (simp add: handleUndo_def aligned_def jump_def at_index_def)
next
  case False
  then have m: "max 0 (historyIndex st - 1) = historyIndex st"
    using that by (simp add: aligned_def)
  show ?thesis using False that unfolding m by (simp add: handleUndo_def jump_self)
qed

lemma redo_aligned:
  "handleRedo st = Some (jump st (min (int (length (history st)) - 1) (historyIndex st + 1)))"
  if "aligned st"
proof (cases "historyIndex st < int (length (history st)) - 1")
  case True
  then have m: "min (int (length (history st)) - 1) (historyIndex st + 1) = historyIndex st + 1"
    by simp
  show ?thesis using True that unfolding m
    by (simp add: handleRedo_def aligned_def jump_def at_index_def)
next
  case False
  then have m: "min (int (length (history st)) - 1) (historyIndex st + 1) = historyIndex st"
    using that by (simp add: aligned_def)
  show ?thesis using False that unfolding m by (simp add: handleRedo_def jump_self)
qed

lemma undo_n_aligned:
  "aligned st \<Longrightarrow>
   repeatedly n handleUndo st = Some (jump st (max 0 (historyIndex st - int n)))"
proof (induction n arbitrary: st)
  case 0
  then have "max 0 (historyIndex st - int 0) = historyIndex st"
    by (simp add: aligned_def)
  then show ?case using 0 by (simp add: jump_self)
next
  case (Suc n)
  let ?st1 = "jump st (max 0 (historyIndex st - 1))"
  have a1: "aligned ?st1" using Suc.prems by (intro aligned_jump) (auto simp: aligned_def)
  have i1: "historyIndex ?st1 = max 0 (historyIndex st - 1)" by (simp add: jump_def)
  have "repeatedly (Suc n) handleUndo st = repeatedly n handleUndo ?st1"
    by (simp add: undo_aligned[OF Suc.prems])
  also have "\<dots> = Some (jump ?st1 (max 0 (historyIndex ?st1 - int n)))"
    by (rule Suc.IH[OF a1])
  also have "jump ?st1 (max 0 (historyIndex ?st1 - int n)) =
      jump st (max 0 (historyIndex ?st1 - int n))"
    by (rule jump_jump)
  also have "max 0 (historyIndex ?st1 - int n) = max 0 (historyIndex st - int (Suc n))"
    unfolding i1 by simp
  finally show ?case .
qed

lemma redo_n_aligned:
  "aligned st \<Longrightarrow>
   repeatedly n handleRedo st =
     Some (jump st (min (int (length (history st)) - 1) (historyIndex st + int n)))"
proof (induction n arbitrary: st)
  case 0
  then have "min (int (length (history st)) - 1) (historyIndex st + int 0) = historyIndex st"
    by (simp add: aligned_def)
  then show ?case using 0 by (simp add: jump_self)
next
  case (Suc n)
  let ?st1 = "jump st (min (int (length (history st)) - 1) (historyIndex st + 1))"
  have a1: "aligned ?st1" using Suc.prems by (intro aligned_jump) (auto simp: aligned_def)
  have i1: "historyIndex ?st1 = min (int (length (history st)) - 1) (historyIndex st + 1)"
    by (simp add: jump_def)
  have h1: "history ?st1 = history st" by (simp add: jump_def)
  have "repeatedly (Suc n) handleRedo st = repeatedly n handleRedo ?st1"
    by (simp add: redo_aligned[OF Suc.prems])
  also have "\<dots> = Some (jump ?st1 (min (int (length (history ?st1)) - 1) (historyIndex ?st1 + int n)))"
    by (rule Suc.IH[OF a1])
  also have "jump ?st1 (min (int (length (history ?st1)) - 1) (historyIndex ?st1 + int n)) =
      jump st (min (int (length (history ?st1)) - 1) (historyIndex ?st1 + int n))"
    by (rule jump_jump)
  also have "min (int (length (history ?st1)) - 1) (historyIndex ?st1 + int n) =
      min (int (length (history st)) - 1) (historyIndex st + int (Suc n))"
    unfolding i1 h1 by simp
  finally show ?case .
qed

lemma atTip_aligned: "atTip st \<Longrightarrow> aligned st"
proof -
  assume a: "atTip st"
  then have n: "nat (historyIndex st) = length (history st) - 1"
    by (simp add: atTip_def nat_diff_distrib)
  show ?thesis using a unfolding aligned_def n by (auto simp: atTip_def last_conv_nth)
qed

lemma undo_redo_atTip:
  assumes "atTip st"
  shows "\<exists>st'. repeatedly n handleUndo st = Some st' \<and> repeatedly n handleRedo st' = Some st"
proof -
  have al: "aligned st" by (rule atTip_aligned[OF assms])
  let ?j = "max 0 (historyIndex st - int n)"
  let ?st' = "jump st ?j"
  have u: "repeatedly n handleUndo st = Some ?st'" by (rule undo_n_aligned[OF al])
  have al': "aligned ?st'" using al by (intro aligned_jump) (auto simp: aligned_def)
  have "repeatedly n handleRedo ?st' =
      Some (jump ?st' (min (int (length (history ?st')) - 1) (historyIndex ?st' + int n)))"
    by (rule redo_n_aligned[OF al'])
  also have "min (int (length (history ?st')) - 1) (historyIndex ?st' + int n) = historyIndex st"
  proof -
    have "history ?st' = history st" "historyIndex ?st' = ?j" by (simp_all add: jump_def)
    then show ?thesis using assms by (simp add: atTip_def)
  qed
  also have "jump ?st' (historyIndex st) = st"
    using al by (simp only: jump_jump jump_self)
  finally show ?thesis using u by blast
qed

lemma commit_atTip: "- 1 \<le> historyIndex st \<Longrightarrow> historyIndex st < int (length (history st)) \<Longrightarrow> atTip (commit scene st)"
  by (auto simp: atTip_def commit_def slice0_def)

lemma commit_historyInv: "historyInv st \<Longrightarrow> historyInv (commit scene st)"
  by (auto simp: historyInv_def commit_def slice0_def)

lemma commits_snoc: "commits (scenes @ [s]) st = commit s (commits scenes st)"
  by (simp add: commits_def)

lemma commits_historyInv: "historyInv st \<Longrightarrow> historyInv (commits scenes st)"
  by (induction scenes rule: rev_induct) (simp_all add: commits_def commit_historyInv)

lemma commits_atTip: "historyInv st \<Longrightarrow> scenes \<noteq> [] \<Longrightarrow> atTip (commits scenes st)"
proof (induction scenes rule: rev_induct)
  case Nil then show ?case by simp
next
  case (snoc s scenes)
  have "historyInv (commits scenes st)" by (rule commits_historyInv[OF snoc.prems(1)])
  then show ?case unfolding commits_snoc by (intro commit_atTip) (simp_all add: historyInv_def)
qed

lemma commits_elements: "scenes \<noteq> [] \<Longrightarrow> elements (commits scenes st) = last scenes"
  by (induction scenes rule: rev_induct) (simp_all add: commits_snoc commit_def)

lemma commits_fresh:
  "history st = [] \<Longrightarrow> historyIndex st = - 1 \<Longrightarrow>
   history (commits scenes st) = scenes \<and> historyIndex (commits scenes st) = int (length scenes) - 1"
  by (induction scenes rule: rev_induct) (auto simp add: commits_snoc commit_def slice0_def commits_def)

lemma undo_noop: "historyIndex st \<le> 0 \<Longrightarrow> handleUndo st = Some st"
  by (simp add: handleUndo_def)

lemma redo_after_commit: "historyInv st \<Longrightarrow> handleRedo (commit scene st) = Some (commit scene st)"
  by (auto simp: handleRedo_def commit_def historyInv_def slice0_def)

lemma absent_map: "i \<notin> el_id ` set els \<Longrightarrow> map (\<lambda>el. if el_id el = i \<and> P el then f el else el) els = els"
  by (induction els) auto

lemma absent_map': "i \<notin> el_id ` set els \<Longrightarrow> map (\<lambda>el. if el_id el = i then f el else el) els = els"
  using absent_map[where P="\<lambda>_. True"] by simp

lemma absent_filter: "i \<notin> el_id ` set els \<Longrightarrow> filter (\<lambda>el. el_id el \<noteq> i) els = els"
  by (induction els) auto

lemma finishDrawing_historyInv: "historyInv st \<Longrightarrow> historyInv (finishDrawing st)"
  by (auto simp: historyInv_def finishDrawing_def slice0_def)

lemma startDrawing_historyInv: "historyInv st \<Longrightarrow> historyInv (startDrawing point now st)"
proof -
  assume h: "historyInv st"
  have e: "historyInv (st\<lparr>action := erasing\<rparr>)" using h by (simp add: historyInv_def)
  have c: "\<And>s. historyInv (commit s st)" using h by (rule commit_historyInv)
  have c': "\<And>s. historyInv (commit s (st\<lparr>action := erasing\<rparr>))" using e by (rule commit_historyInv)
  have u: "\<And>a els. historyInv (st\<lparr>action := a, elements := els\<rparr>)"
      "\<And>a. historyInv (st\<lparr>action := a\<rparr>)"
      "\<And>a e. historyInv (st\<lparr>selectedElement := e, action := a\<rparr>)"
    using h by (simp_all add: historyInv_def)
  show ?thesis
    unfolding startDrawing_def Let_def
    by (simp add: h e c c' u split: option.split)
qed

lemma draw_historyInv: "historyInv st \<Longrightarrow> draw point st = Some st' \<Longrightarrow> historyInv st'"
  by (auto simp: draw_def historyInv_def Let_def split: if_splits option.splits)

lemma undo_historyInv: "historyInv st \<Longrightarrow> handleUndo st = Some st' \<Longrightarrow> historyInv st'"
  by (auto simp: handleUndo_def historyInv_def split: if_splits option.splits)

lemma redo_historyInv: "historyInv st \<Longrightarrow> handleRedo st = Some st' \<Longrightarrow> historyInv st'"
  by (auto simp: handleRedo_def historyInv_def split: if_splits option.splits)

lemma switchProject_historyInv: "historyInv st \<Longrightarrow> historyInv (switchProject ps i st)"
  by (simp add: switchProject_def historyInv_def split: option.split)

lemma undo_total: "historyInv st \<Longrightarrow> handleUndo st \<noteq> None"
  by (auto simp: handleUndo_def historyInv_def at_index_def)

lemma redo_total: "historyInv st \<Longrightarrow> handleRedo st \<noteq> None"
  by (auto simp: handleRedo_def historyInv_def at_index_def)



section \<open>Hit-testing lemmas\<close>

lemma scanDown_find:
  "n \<le> length els \<Longrightarrow> scanDown els point n = find (hitsElement point) (rev (take n els))"
proof (induction n)
  case 0
  show ?case by simp
next
  case (Suc n)
  then have "take (Suc n) els = take n els @ [els ! n]"
    by (simp add: take_Suc_conv_app_nth)
  then show ?case using Suc by simp
qed

lemma getElementAtPosition_find:
  "getElementAtPosition els point = find (hitsElement point) (rev els)"
  by (simp add: getElementAtPosition_def scanDown_find)

lemma find_none_append:
  "\<forall>e\<in>set zs. \<not> P e \<Longrightarrow> find P (zs @ ys) = find P ys"
  by (induction zs) auto

lemma topmost:
  assumes "hitsElement point b" "\<forall>e\<in>set zs. \<not> hitsElement point e"
  shows "getElementAtPosition (xs @ b # zs) point = Some b"
proof -
  have "find (hitsElement point) (rev zs @ b # rev xs) = find (hitsElement point) (b # rev xs)"
    using assms(2) by (intro find_none_append) simp
  then show ?thesis using assms(1) by (simp add: getElementAtPosition_find)
qed

lemma pathLoop_iff:
  "pathLoop point pts \<longleftrightarrow>
     (\<exists>j. j + 1 < length pts \<and> jsLt (distanceToSegment point (pts ! j) (pts ! (j + 1))) (Num 10))"
proof (induction point pts rule: pathLoop.induct)
  case (1 point p1 p2 rest)
  show ?case
  proof (cases "jsLt (distanceToSegment point p1 p2) (Num 10)")
    case True
    then have "\<exists>j. j + 1 < length (p1 # p2 # rest) \<and>
        jsLt (distanceToSegment point ((p1 # p2 # rest) ! j) ((p1 # p2 # rest) ! (j + 1))) (Num 10)"
      by (intro exI[of _ 0]) simp
    then show ?thesis using True by simp
  next
    case False
    have "(\<exists>j. j + 1 < length (p1 # p2 # rest) \<and>
        jsLt (distanceToSegment point ((p1 # p2 # rest) ! j) ((p1 # p2 # rest) ! (j + 1))) (Num 10))
      \<longleftrightarrow> (\<exists>j. j + 1 < length (p2 # rest) \<and>
        jsLt (distanceToSegment point ((p2 # rest) ! j) ((p2 # rest) ! (j + 1))) (Num 10))"
      (is "?L \<longleftrightarrow> ?R")
    proof
      assume ?L
      then obtain j where j: "j + 1 < length (p1 # p2 # rest)"
        "jsLt (distanceToSegment point ((p1 # p2 # rest) ! j) ((p1 # p2 # rest) ! (j + 1))) (Num 10)"
        by blast
      with False obtain k where "j = Suc k" by (cases j) auto
      with j show ?R by (intro exI[of _ k]) simp
    next
      assume ?R
      then obtain j where "j + 1 < length (p2 # rest)"
        "jsLt (distanceToSegment point ((p2 # rest) ! j) ((p2 # rest) ! (j + 1))) (Num 10)"
        by blast
      then show ?L by (intro exI[of _ "Suc j"]) simp
    qed
    then show ?thesis using False 1 by simp
  qed
qed simp_all

lemma hits_path_two:
  "hitsElement point e \<Longrightarrow> isPath e \<Longrightarrow> 2 \<le> length (points e)"
proof (cases e)
  case (PathElement i c sw opa pts)
  assume "hitsElement point e"
  then have "pathLoop point pts" using PathElement by simp
  then show ?thesis using PathElement by (cases pts; cases "tl pts") auto
qed auto

lemma getElementAtPosition_hits:
  "getElementAtPosition els point = Some e \<Longrightarrow> hitsElement point e \<and> e \<in> set els"
proof -
  assume "getElementAtPosition els point = Some e"
  then have f: "find (hitsElement point) (rev els) = Some e"
    by (simp add: getElementAtPosition_find)
  then obtain k where "k < length (rev els)" "hitsElement point (rev els ! k)" "e = rev els ! k"
    unfolding find_Some_iff by blast
  then have "hitsElement point e" "e \<in> set (rev els)" by (auto simp del: set_rev)
  then show ?thesis by simp
qed

lemma distanceToSegment_radicand:
  "distanceToSegment point p1 p2 = jsSqrt (distanceRadicand point p1 p2)"
  by (simp add: distanceToSegment_def distanceRadicand_def Let_def)

lemma fl_50: "fl 50 = Num 50"
  by code_simp

lemma scenario_near: "distanceToSegment (pt 5 1) (pt 0 0) (pt 10 0) = Num 1"
proof -
  have "distanceRadicand (pt 5 1) (pt 0 0) (pt 10 0) = Num 1" by code_simp
  then show ?thesis using jsSqrt_square[of 1] by (simp add: distanceToSegment_radicand fl_1)
qed

lemma scenario_far: "distanceToSegment (pt 5 50) (pt 0 0) (pt 10 0) = Num 50"
proof -
  have "distanceRadicand (pt 5 50) (pt 0 0) (pt 10 0) = Num 2500" by code_simp
  then show ?thesis using jsSqrt_square[of 50] by (simp add: distanceToSegment_radicand fl_50)
qed

lemma scenario_hit:
  "getElementAtPosition [PathElement i c (Num 3) (Num 1) [pt 0 0, pt 10 0]] (pt 5 1)
     = Some (PathElement i c (Num 3) (Num 1) [pt 0 0, pt 10 0])"
  by (simp add: getElementAtPosition_def scenario_near jsLt_def)

lemma scenario_miss:
  "getElementAtPosition [PathElement i c (Num 3) (Num 1) [pt 0 0, pt 10 0]] (pt 5 50) = None"
  by (simp add: getElementAtPosition_def scenario_far jsLt_def)

section \<open>Further lemmas\<close>

lemma historyInv_initial: "historyInv initialWhiteboard"
  by (simp add: historyInv_def initialWhiteboard_def)

lemmas js_compare = jsLt_def jsLe_def jsGt_def jsGe_def jsMin_def jsMax_def

lemma hits_exampleA: "hitsElement (pt 50 25) exampleA"
  by (simp add: exampleA_def js_compare)

lemma hits_exampleB: "hitsElement (pt 50 25) exampleB"
  by (simp add: exampleB_def js_compare)

lemma hit_not_dot:
  assumes "getElementAtPosition els point = Some e"
  shows "e \<noteq> PathElement i c sw opa [p]"
proof
  assume "e = PathElement i c sw opa [p]"
  then have "hitsElement point (PathElement i c sw opa [p])"
    using getElementAtPosition_hits[OF assms] by simp
  then show False by simp
qed

lemma dot_survives_filter:
  assumes d: "PathElement i c sw opa [p] \<in> set els"
    and u: "\<forall>e\<in>set els. el_id e = i \<longrightarrow> e = PathElement i c sw opa [p]"
    and g: "getElementAtPosition els point = Some hit"
  shows "PathElement i c sw opa [p] \<in> set (filter (\<lambda>el. el_id el \<noteq> el_id hit) els)"
proof -
  have "hit \<in> set els" using getElementAtPosition_hits[OF g] by simp
  moreover have "hit \<noteq> PathElement i c sw opa [p]" by (rule hit_not_dot[OF g])
  ultimately have "el_id hit \<noteq> i" using u by blast
  then show ?thesis using d by simp
qed

text \<open>
  The scenes \<open>[A]\<close>, \<open>[A, B]\<close>, \<open>[A]\<close> committed in turn: three entries with the
  cursor at 2; one undo shows \<open>[A, B]\<close> at cursor 1, a second shows \<open>[A]\<close> at
  cursor 0, and a third changes nothing.
\<close>

lemma history_scenario:
  "history (commits [[exampleA], [exampleA, exampleB], [exampleA]] initialWhiteboard)
     = [[exampleA], [exampleA, exampleB], [exampleA]]
   \<and> historyIndex (commits [[exampleA], [exampleA, exampleB], [exampleA]] initialWhiteboard) = 2
   \<and> map_option (\<lambda>s. (elements s, historyIndex s))
        (repeatedly 1 handleUndo
          (commits [[exampleA], [exampleA, exampleB], [exampleA]] initialWhiteboard))
      = Some ([exampleA, exampleB], 1)
   \<and> map_option (\<lambda>s. (elements s, historyIndex s))
        (repeatedly 2 handleUndo
          (commits [[exampleA], [exampleA, exampleB], [exampleA]] initialWhiteboard))
      = Some ([exampleA], 0)
   \<and> map_option (\<lambda>s. (elements s, historyIndex s))
        (repeatedly 3 handleUndo
          (commits [[exampleA], [exampleA, exampleB], [exampleA]] initialWhiteboard))
      = Some ([exampleA], 0)"
  by (simp add: commits_def commit_def initialWhiteboard_def slice0_def handleUndo_def
      at_index_def numeral_2_eq_2 numeral_3_eq_3)

lemma fitImage_scenario:
  "fitImage (Num 1000) (Num 800) (Num 2000) (Num 1000) = (Num 800, Num 400, pt 100 200)"
  by code_simp

lemma imageOnload_same_render:
  "historyInv st \<Longrightarrow> historyInv (imageOnload canvas iw ih w h r now st st)"
  by (auto simp: imageOnload_def Let_def historyInv_def slice0_def split: prod.split)

lemma raceClicked_cells:
  "history raceClicked = [elements raceClicked] \<and> historyIndex raceClicked = 0
   \<and> length (elements raceClicked) = 1"
  by (simp add: raceClicked_def raceChosen_def startDrawing_def initialWhiteboard_def commit_def
      slice0_def Let_def)

lemma reaches_raceClicked: "reaches raceChosen raceClicked"
  unfolding raceClicked_def by (rule r_start[OF r_refl])

lemma reachable_raceChosen: "reaches initialWhiteboard raceChosen"
  unfolding raceChosen_def by (rule r_tool[OF r_refl])

section \<open>Image fitting lemmas\<close>

lemma aspect_keep:
  fixes K L :: real
  assumes "0 < a2" "0 < b2" "0 \<le> K" "a2 * L \<le> K" "K \<le> b2 * L"
    and "1 - e \<le> 1 / b2" "1 / a2 \<le> 1 + e"
  shows "\<bar>L - K\<bar> \<le> e * K"
proof -
  have "K / b2 \<le> L" using assms(2,5) by (simp add: pos_divide_le_eq mult.commute)
  then have lo: "1 / b2 * K \<le> L" by simp
  have "L \<le> K / a2" using assms(1,4) by (simp add: pos_le_divide_eq mult.commute)
  then have hi: "L \<le> 1 / a2 * K" by simp
  from assms(3) lo hi assms(6,7) show ?thesis by (rule sandwich)
qed

lemma aspect_scale:
  fixes w1 w2 h1 mh iw ih :: real
  assumes pos: "0 < a2" "0 < b2" "0 < w1" "0 \<le> w2" "0 \<le> iw" "0 \<le> mh"
    and s1: "a2 * (w1 * ih) \<le> h1 * iw" "h1 * iw \<le> b2 * (w1 * ih)"
    and s2: "a2 * (w1 * mh) \<le> w2 * h1" "w2 * h1 \<le> b2 * (w1 * mh)"
    and num: "1 - e \<le> a2 / b2" "b2 / a2 \<le> 1 + e"
  shows "\<bar>w2 * ih - mh * iw\<bar> \<le> e * (mh * iw)"
proof -
  define L where "L = w2 * ih"
  define K where "K = mh * iw"
  have K0: "0 \<le> K" using pos by (simp add: K_def)
  have "w2 * (a2 * (w1 * ih)) \<le> w2 * (h1 * iw)" using s1(1) pos(4) by (rule mult_left_mono)
  moreover have "(w2 * h1) * iw \<le> (b2 * (w1 * mh)) * iw" using s2(2) pos(5) by (rule mult_right_mono)
  moreover have "w2 * (a2 * (w1 * ih)) = (a2 * L) * w1" "w2 * (h1 * iw) = (w2 * h1) * iw"
    "(b2 * (w1 * mh)) * iw = (b2 * K) * w1" by (simp_all add: L_def K_def)
  ultimately have "(a2 * L) * w1 \<le> (b2 * K) * w1" by (simp only:)
  then have u1: "a2 * L \<le> b2 * K" using pos(3) by (simp only: mult_le_cancel_right_pos)
  have "w2 * (h1 * iw) \<le> w2 * (b2 * (w1 * ih))" using s1(2) pos(4) by (rule mult_left_mono)
  moreover have "(a2 * (w1 * mh)) * iw \<le> (w2 * h1) * iw" using s2(1) pos(5) by (rule mult_right_mono)
  moreover have "w2 * (b2 * (w1 * ih)) = (b2 * L) * w1" "w2 * (h1 * iw) = (w2 * h1) * iw"
    "(a2 * (w1 * mh)) * iw = (a2 * K) * w1" by (simp_all add: L_def K_def)
  ultimately have "(a2 * K) * w1 \<le> (b2 * L) * w1" by (simp only:)
  then have u2: "a2 * K \<le> b2 * L" using pos(3) by (simp only: mult_le_cancel_right_pos)
  have "L \<le> b2 * K / a2" using u1 pos(1) by (simp add: pos_le_divide_eq mult.commute)
  then have hi: "L \<le> b2 / a2 * K" by simp
  have "a2 * K / b2 \<le> L" using u2 pos(2) by (simp add: pos_divide_le_eq mult.commute)
  then have lo: "a2 / b2 * K \<le> L" by simp
  from K0 lo hi num have "\<bar>L - K\<bar> \<le> e * K" by (rule sandwich)
  then show ?thesis by (simp only: L_def K_def)
qed

lemma roundoff_numbers:
  "0 < (1 - roundoff)\<^sup>2" "0 < (1 + roundoff)\<^sup>2"
  "(1 - roundoff)\<^sup>2 \<le> 1" "1 \<le> (1 + roundoff)\<^sup>2"
  "1 - 2 powi (- 50) \<le> 1 / (1 + roundoff)\<^sup>2" "1 / (1 - roundoff)\<^sup>2 \<le> 1 + 2 powi (- 50)"
  "1 - 2 powi (- 50) \<le> (1 - roundoff)\<^sup>2 / (1 + roundoff)\<^sup>2"
  "(1 + roundoff)\<^sup>2 / (1 - roundoff)\<^sup>2 \<le> 1 + 2 powi (- 50)"
  by (simp_all add: roundoff_val power2_eq_square power_int_minus)

lemma fitImage_thin:
  "fitImage (Num 1000) (Num 800) (Num 100) (Num 1500) =
     (Num (3002399751580331 / 70368744177664), Num 640,
      Point (Num (8420793053260459 / 17592186044416)) (Num 80))"
  by code_simp

lemma fitImage_wide:
  "fitImage (Num 1024) (Num 768) (Num 2000) (Num 100) =
     (Num (3602879701896397 / 4398046511104), Num (5764607523034235 / 140737488355328),
      Point (Num (900719925474099 / 8796093022208)) (Num (799388933858263 / 2199023255552)))"
  by code_simp

lemma int_size:
  fixes n :: int
  assumes "1 \<le> n" "n \<le> 2 ^ 32"
  shows "1 \<le> real_of_int n" "real_of_int n \<le> 2 ^ 32" "fl (real_of_int n) = Num (real_of_int n)"
proof -
  show "1 \<le> real_of_int n" using assms(1) by simp
  have "real_of_int n \<le> real_of_int (2 ^ 32)" using assms(2) by (simp only: of_int_le_iff)
  then show "real_of_int n \<le> 2 ^ 32" by simp
  have "\<bar>n\<bar> \<le> 2 ^ 53" using assms by simp
  then show "fl (real_of_int n) = Num (real_of_int n)" by (rule fl_int)
qed

text \<open>The first \<open>if\<close> of \<open>img.onload\<close>, on a cap \<open>mw\<close> and an image of \<open>iw\<close> by \<open>ih\<close>.\<close>

lemma fit_width:
  assumes mw: "fl mw = Num mw" "1 / 2 \<le> mw" "mw \<le> 2 ^ 32"
    and iw: "fl iw = Num iw" "1 \<le> iw" "iw \<le> 2 ^ 32"
    and ih: "fl ih = Num ih" "1 \<le> ih" "ih \<le> 2 ^ 32"
  shows "\<exists>w1 h1.
           (if jsGt (Num iw) (Num mw)
            then (Num mw, jsMul (Num ih) (jsDiv (Num mw) (Num iw)))
            else (Num iw, Num ih)) = (Num w1, Num h1)
         \<and> fl w1 = Num w1 \<and> 1 / 2 \<le> w1 \<and> w1 \<le> mw \<and> w1 \<le> iw
         \<and> fl h1 = Num h1 \<and> 0 < h1 \<and> h1 \<le> ih
         \<and> (1 - roundoff)\<^sup>2 * (w1 * ih) \<le> h1 * iw \<and> h1 * iw \<le> (1 + roundoff)\<^sup>2 * (w1 * ih)
         \<and> (w1 = iw \<and> h1 = ih \<or> w1 = mw \<and> mw < iw)"
proof (cases "mw < iw")
  case True
  have b: "1 / 2 \<le> ih" using ih(2) by simp
  from scale_rounded[OF mw(2) True iw(3) ih(1) b ih(3)] obtain r s where
    rs: "jsDiv (Num mw) (Num iw) = Num r" "jsMul (Num ih) (Num r) = Num s" "fl s = Num s"
      "0 < s" "s \<le> ih" "(1 - roundoff)\<^sup>2 * (ih * mw) \<le> s * iw"
      "s * iw \<le> (1 + roundoff)\<^sup>2 * (ih * mw)" by blast
  have "(if jsGt (Num iw) (Num mw)
         then (Num mw, jsMul (Num ih) (jsDiv (Num mw) (Num iw)))
         else (Num iw, Num ih)) = (Num mw, Num s)"
    using True by (simp add: jsGt_Num rs(1,2))
  moreover have "mw \<le> iw" using True by simp
  moreover have "(1 - roundoff)\<^sup>2 * (mw * ih) \<le> s * iw" "s * iw \<le> (1 + roundoff)\<^sup>2 * (mw * ih)"
    using rs(6,7) by (simp_all only: mult.commute[of mw ih])
  ultimately show ?thesis using mw rs(3,4,5) True by blast
next
  case False
  have "(if jsGt (Num iw) (Num mw)
         then (Num mw, jsMul (Num ih) (jsDiv (Num mw) (Num iw)))
         else (Num iw, Num ih)) = (Num iw, Num ih)"
    using False by (simp add: jsGt_Num)
  moreover have "iw \<le> mw" "1 / 2 \<le> iw" "0 < ih" using False iw(2) ih(2) by simp_all
  moreover have "0 \<le> ih * iw" using iw(2) ih(2) by simp
  then have "(1 - roundoff)\<^sup>2 * (iw * ih) \<le> ih * iw" "ih * iw \<le> (1 + roundoff)\<^sup>2 * (iw * ih)"
    using roundoff_numbers(3,4)
      mult_right_mono[of "(1 - roundoff)\<^sup>2" 1 "ih * iw"]
      mult_right_mono[of 1 "(1 + roundoff)\<^sup>2" "ih * iw"]
    by (simp_all add: mult.commute[of iw ih])
  ultimately show ?thesis using iw(1) ih(1) by blast
qed

text \<open>The second \<open>if\<close>, on the size \<open>w1\<close> by \<open>h1\<close> left by the first.\<close>

lemma fit_height:
  assumes mh: "1 / 2 \<le> mh"
    and w1: "fl w1 = Num w1" "1 / 2 \<le> w1" "w1 \<le> 2 ^ 32"
    and h1: "0 < h1" "h1 \<le> 2 ^ 32"
  shows "\<exists>w2 h2.
           (if jsGt (Num h1) (Num mh)
            then (jsMul (Num w1) (jsDiv (Num mh) (Num h1)), Num mh)
            else (Num w1, Num h1)) = (Num w2, Num h2)
         \<and> 0 < w2 \<and> w2 \<le> w1 \<and> 0 < h2 \<and> h2 \<le> mh \<and> h2 \<le> h1
         \<and> (w2 = w1 \<and> h2 = h1
             \<or> h2 = mh \<and> mh < h1 \<and> (1 - roundoff)\<^sup>2 * (w1 * mh) \<le> w2 * h1
                 \<and> w2 * h1 \<le> (1 + roundoff)\<^sup>2 * (w1 * mh))"
proof (cases "mh < h1")
  case True
  from scale_rounded[OF mh True h1(2) w1] obtain r s where
    rs: "jsDiv (Num mh) (Num h1) = Num r" "jsMul (Num w1) (Num r) = Num s"
      "0 < s" "s \<le> w1" "(1 - roundoff)\<^sup>2 * (w1 * mh) \<le> s * h1"
      "s * h1 \<le> (1 + roundoff)\<^sup>2 * (w1 * mh)" by blast
  have "(if jsGt (Num h1) (Num mh)
         then (jsMul (Num w1) (jsDiv (Num mh) (Num h1)), Num mh)
         else (Num w1, Num h1)) = (Num s, Num mh)"
    using True by (simp add: jsGt_Num rs(1,2))
  moreover have "0 < mh" "mh \<le> h1" using mh True by simp_all
  ultimately show ?thesis using rs(3,4,5,6) True by blast
next
  case False
  have "(if jsGt (Num h1) (Num mh)
         then (jsMul (Num w1) (jsDiv (Num mh) (Num h1)), Num mh)
         else (Num w1, Num h1)) = (Num w1, Num h1)"
    using False by (simp add: jsGt_Num)
  moreover have "0 < w1" "h1 \<le> mh" using w1(2) False by simp_all
  ultimately show ?thesis using h1(1) by blast
qed

lemma onload_scenario:
  "elements (imageOnload (Some (Num 1000, Num 800)) innerWidth innerHeight (Num 2000) (Num 1000)
       result now captured st) =
     elements st @ [ImageElement now ''#ffffff'' (Num 0) (Num 1) (pt 100 200) result
                      (Num 800) (Num 400) (Num 0)]"
  by (simp add: imageOnload_def orElse_def truthy_def fitImage_scenario Let_def)

section \<open>Claims on the history\<close>

text \<open>
  Claim C1. After a non-empty sequence of \<open>N\<close> commits, made from any state that satisfies
  the history invariant, \<open>N\<close> undos followed by \<open>N\<close> redos succeed and give back the state
  after the last commit, whose scene is the last committed scene. Commits made from the
  initial state leave exactly the committed scenes in the history, with the cursor on the
  last one. An undo with the cursor at or below 0 changes nothing, and so does a redo
  right after a commit.
\<close>

theorem undo_redo_restores_final_scene:
  "(historyInv st \<and> scenes \<noteq> [] \<longrightarrow>
      (\<exists>st'. repeatedly (length scenes) handleUndo (commits scenes st) = Some st'
         \<and> repeatedly (length scenes) handleRedo st' = Some (commits scenes st))
      \<and> elements (commits scenes st) = last scenes)
   \<and> history (commits scenes initialWhiteboard) = scenes
   \<and> historyIndex (commits scenes initialWhiteboard) = int (length scenes) - 1
   \<and> (historyIndex st \<le> 0 \<longrightarrow> handleUndo st = Some st)
   \<and> (historyInv st \<longrightarrow> handleRedo (commit scene st) = Some (commit scene st))"
proof -
  have "\<exists>st'. repeatedly (length scenes) handleUndo (commits scenes st) = Some st'
         \<and> repeatedly (length scenes) handleRedo st' = Some (commits scenes st)"
    if "historyInv st" "scenes \<noteq> []"
    using that by (intro undo_redo_atTip commits_atTip)
  moreover have "history (commits scenes initialWhiteboard) = scenes
      \<and> historyIndex (commits scenes initialWhiteboard) = int (length scenes) - 1"
    by (rule commits_fresh) (simp_all add: initialWhiteboard_def)
  ultimately show ?thesis
    by (simp add: commits_elements undo_noop redo_after_commit)
qed

theorem undo_redo_restores_final_scene_witness:
  "historyInv initialWhiteboard
   \<and> [[exampleA], [exampleA, exampleB], [exampleA]] \<noteq> []
   \<and> (\<exists>st'. repeatedly 3 handleUndo
               (commits [[exampleA], [exampleA, exampleB], [exampleA]] initialWhiteboard) = Some st'
         \<and> repeatedly 3 handleRedo st' =
               Some (commits [[exampleA], [exampleA, exampleB], [exampleA]] initialWhiteboard))
   \<and> elements (commits [[exampleA], [exampleA, exampleB], [exampleA]] initialWhiteboard) = [exampleA]
   \<and> historyIndex initialWhiteboard \<le> 0
   \<and> handleUndo initialWhiteboard = Some initialWhiteboard
   \<and> handleRedo (commit [exampleA] initialWhiteboard) = Some (commit [exampleA] initialWhiteboard)"
proof -
  have h: "historyInv initialWhiteboard" by (rule historyInv_initial)
  have i: "historyIndex initialWhiteboard \<le> 0" by (simp add: initialWhiteboard_def)
  have n: "length [[exampleA], [exampleA, exampleB], [exampleA]] = 3" by simp
  show ?thesis
    using undo_redo_restores_final_scene
      [of initialWhiteboard "[[exampleA], [exampleA, exampleB], [exampleA]]" "[exampleA]"]
      h i
    unfolding n by simp
qed



section \<open>Claims on hit testing\<close>

text \<open>
  Claim C3. \<open>getElementAtPosition\<close> scans the scene from its last element to its first
  and returns the first element whose matching rule accepts the point. So when \<open>a\<close> was
  appended before \<open>b\<close>, both accept the point and no element above \<open>b\<close> accepts it, the
  result is \<open>b\<close>; on the scene of just \<open>a\<close> and \<open>b\<close> the result is \<open>b\<close>.
\<close>

theorem hitTest_topmost_wins:
  "(hitsElement point a \<and> hitsElement point b \<and> (\<forall>e\<in>set zs. \<not> hitsElement point e) \<longrightarrow>
      getElementAtPosition (xs @ a # ys @ b # zs) point = Some b)
   \<and> (hitsElement point a \<and> hitsElement point b \<longrightarrow>
      getElementAtPosition [a, b] point = Some b)
   \<and> getElementAtPosition els point = find (hitsElement point) (rev els)"
proof -
  have "getElementAtPosition (xs @ a # ys @ b # zs) point = Some b"
    if "hitsElement point b" "\<forall>e\<in>set zs. \<not> hitsElement point e"
    using topmost[OF that, of "xs @ a # ys"] by simp
  moreover have "getElementAtPosition [a, b] point = Some b" if "hitsElement point b"
    using topmost[of point b "[]" "[a]"] that by simp
  ultimately show ?thesis by (simp add: getElementAtPosition_find)
qed

theorem hitTest_topmost_wins_witness:
  "hitsElement (pt 50 25) exampleA \<and> hitsElement (pt 50 25) exampleB
   \<and> \<not> hitsElement (pt 50 25) exampleDot
   \<and> getElementAtPosition [exampleA, exampleB, exampleDot] (pt 50 25) = Some exampleB
   \<and> getElementAtPosition [exampleA, exampleB] (pt 50 25) = Some exampleB"
proof -
  have d: "\<forall>e\<in>set [exampleDot]. \<not> hitsElement (pt 50 25) e"
    by (simp add: exampleDot_def)
  show ?thesis
    using hitTest_topmost_wins[of "pt 50 25" exampleA exampleB "[exampleDot]" "[]" "[]"]
      hits_exampleA hits_exampleB d
    by simp
qed

section \<open>Claim on the image import\<close>

text \<open>
  Claim C5, as stated, fails on the code. A 100 by 1500 image on a 1000 by 800 canvas is
  capped in height: the ratio \<open>640 / 1500\<close> and the product \<open>100 * ratio\<close> are rounded, and
  the width 42.66666666666667 that results has \<open>width * 1500 > 640 * 100\<close>, so the aspect
  ratio is not kept exactly. A 2000 by 100 image on a 1024 by 768 canvas gets the width
  \<open>1024 * 0.8\<close> as doubles compute it, which is above 80% of 1024, and is placed left of
  the centring position of an image of that 80%.
\<close>

theorem image_fit_distorts:
  "fitImage (Num 1000) (Num 800) (Num 100) (Num 1500) =
     (Num (3002399751580331 / 70368744177664), Num 640,
      Point (Num (8420793053260459 / 17592186044416)) (Num 80))
   \<and> (640::real) * 100 < 3002399751580331 / 70368744177664 * 1500
   \<and> fitImage (Num 1024) (Num 768) (Num 2000) (Num 100) =
     (Num (3602879701896397 / 4398046511104), Num (5764607523034235 / 140737488355328),
      Point (Num (900719925474099 / 8796093022208)) (Num (799388933858263 / 2199023255552)))
   \<and> (8 / 10 * 1024 :: real) < 3602879701896397 / 4398046511104
   \<and> (900719925474099 / 8796093022208 :: real) < (1024 - 8 / 10 * 1024) / 2"
  using fitImage_thin fitImage_wide by simp

text \<open>
  Claim C5, amended. For a canvas and an image whose sides are whole numbers between 1 and
  \<open>2^32\<close>, \<open>img.onload\<close> computes finite positive sizes \<open>w\<close> and \<open>h\<close> and a finite position
  \<open>(x, y)\<close> such that, with the caps \<open>mw = canvasWidth * 0.8\<close> and \<open>mh = canvasHeight * 0.8\<close>
  as doubles compute them (each at most 80% of the side times \<open>1 + 2^-51\<close>):
  \<open>w\<close> is at most \<open>mw\<close> and at most the image's width, \<open>h\<close> at most \<open>mh\<close> and at most the
  image's height; the size is the image's own unless the image exceeds a cap; the size is the
  image's own or one side is at its cap; the aspect ratio is kept up to rounding,
  \<open>|w * imgH - h * imgW| \<le> 2^-50 * (h * imgW)\<close>; and the position centres the result up to
  rounding, \<open>|x - (canvasWidth - w) / 2| \<le> 2^-51 * ((canvasWidth - w) / 2)\<close> and likewise for
  \<open>y\<close>. The 2000 by 1000 image on a 1000 by 800 canvas gets exactly the size 800 by 400 at
  (100, 200), and that is the element \<open>img.onload\<close> appends.
\<close>

theorem image_fit_rounded:
  fixes cw ch iw ih :: int
  assumes "1 \<le> cw" "cw \<le> 2 ^ 32" "1 \<le> ch" "ch \<le> 2 ^ 32"
    and "1 \<le> iw" "iw \<le> 2 ^ 32" "1 \<le> ih" "ih \<le> 2 ^ 32"
  shows "(\<exists>mw mh w h x y.
      jsMul (Num (of_int cw)) (fl (8 / 10)) = Num mw
    \<and> jsMul (Num (of_int ch)) (fl (8 / 10)) = Num mh
    \<and> mw \<le> 8 / 10 * of_int cw * (1 + 2 powi (- 51))
    \<and> mh \<le> 8 / 10 * of_int ch * (1 + 2 powi (- 51))
    \<and> fitImage (Num (of_int cw)) (Num (of_int ch)) (Num (of_int iw)) (Num (of_int ih))
        = (Num w, Num h, pt x y)
    \<and> 0 < w \<and> w \<le> mw \<and> w \<le> of_int iw \<and> 0 < h \<and> h \<le> mh \<and> h \<le> of_int ih
    \<and> (w = of_int iw \<and> h = of_int ih \<or> mw < of_int iw \<or> mh < of_int ih)
    \<and> (w = of_int iw \<and> h = of_int ih \<or> w = mw \<or> h = mh)
    \<and> \<bar>w * of_int ih - h * of_int iw\<bar> \<le> 2 powi (- 50) * (h * of_int iw)
    \<and> \<bar>x - (of_int cw - w) / 2\<bar> \<le> 2 powi (- 51) * ((of_int cw - w) / 2)
    \<and> \<bar>y - (of_int ch - h) / 2\<bar> \<le> 2 powi (- 51) * ((of_int ch - h) / 2))
   \<and> fitImage (Num 1000) (Num 800) (Num 2000) (Num 1000) = (Num 800, Num 400, pt 100 200)
   \<and> elements (imageOnload (Some (Num 1000, Num 800)) innerWidth innerHeight (Num 2000) (Num 1000)
         result now captured st) =
       elements st @ [ImageElement now ''#ffffff'' (Num 0) (Num 1) (pt 100 200) result
                        (Num 800) (Num 400) (Num 0)]"
proof -
  define C where "C = real_of_int cw"
  define H where "H = real_of_int ch"
  define I where "I = real_of_int iw"
  define J where "J = real_of_int ih"
  note C = int_size[OF assms(1,2), folded C_def]
  note H = int_size[OF assms(3,4), folded H_def]
  note I = int_size[OF assms(5,6), folded I_def]
  note J = int_size[OF assms(7,8), folded J_def]
  from cap_rounded[OF C(1,2)] obtain mw where
    mw: "jsMul (Num C) (fl (8 / 10)) = Num mw" "fl mw = Num mw" "1 / 2 \<le> mw"
      "mw \<le> 81 / 100 * C" "mw \<le> 8 / 10 * C * (1 + 2 powi (- 51))" by blast
  from cap_rounded[OF H(1,2)] obtain mh where
    mh: "jsMul (Num H) (fl (8 / 10)) = Num mh" "fl mh = Num mh" "1 / 2 \<le> mh"
      "mh \<le> 81 / 100 * H" "mh \<le> 8 / 10 * H * (1 + 2 powi (- 51))" by blast
  have mw32: "mw \<le> 2 ^ 32" using mw(4) C(1,2) by linarith
  from fit_width[OF mw(2,3) mw32 I(3,1,2) J(3,1,2)] obtain w1 h1 where
    s1: "(if jsGt (Num I) (Num mw)
          then (Num mw, jsMul (Num J) (jsDiv (Num mw) (Num I)))
          else (Num I, Num J)) = (Num w1, Num h1)"
    and w1: "fl w1 = Num w1" "1 / 2 \<le> w1" "w1 \<le> mw" "w1 \<le> I"
    and h1: "fl h1 = Num h1" "0 < h1" "h1 \<le> J"
    and r1: "(1 - roundoff)\<^sup>2 * (w1 * J) \<le> h1 * I" "h1 * I \<le> (1 + roundoff)\<^sup>2 * (w1 * J)"
    and c1: "w1 = I \<and> h1 = J \<or> w1 = mw \<and> mw < I" by blast
  have w32: "w1 \<le> 2 ^ 32" "h1 \<le> 2 ^ 32" using w1(4) I(2) h1(3) J(2) by linarith+
  from fit_height[OF mh(3) w1(1,2) w32(1) h1(2) w32(2)] obtain w2 h2 where
    s2: "(if jsGt (Num h1) (Num mh)
          then (jsMul (Num w1) (jsDiv (Num mh) (Num h1)), Num mh)
          else (Num w1, Num h1)) = (Num w2, Num h2)"
    and w2: "0 < w2" "w2 \<le> w1"
    and h2: "0 < h2" "h2 \<le> mh" "h2 \<le> h1"
    and c2: "w2 = w1 \<and> h2 = h1
             \<or> h2 = mh \<and> mh < h1 \<and> (1 - roundoff)\<^sup>2 * (w1 * mh) \<le> w2 * h1
                 \<and> w2 * h1 \<le> (1 + roundoff)\<^sup>2 * (w1 * mh)" by blast
  have wC: "w2 \<le> 81 / 100 * C" using w2(2) w1(3) mw(4) by linarith
  have hH: "h2 \<le> 81 / 100 * H" using h2(2) mh(4) by linarith
  from centre_rounded[OF C(1,2) w2(1) wC] obtain x where
    x: "jsDiv (jsSub (Num C) (Num w2)) (Num 2) = Num x"
       "\<bar>x - (C - w2) / 2\<bar> \<le> 2 powi (- 51) * ((C - w2) / 2)" by blast
  from centre_rounded[OF H(1,2) h2(1) hH] obtain y where
    y: "jsDiv (jsSub (Num H) (Num h2)) (Num 2) = Num y"
       "\<bar>y - (H - h2) / 2\<bar> \<le> 2 powi (- 51) * ((H - h2) / 2)" by blast
  have fit: "fitImage (Num C) (Num H) (Num I) (Num J) = (Num w2, Num h2, pt x y)"
    unfolding fitImage_def Let_def mw(1) mh(1) s1 prod.case s2 x(1) y(1) by (rule refl)
  have aspect: "\<bar>w2 * J - h2 * I\<bar> \<le> 2 powi (- 50) * (h2 * I)"
    using c2
  proof
    assume "w2 = w1 \<and> h2 = h1"
    moreover have "0 \<le> h1 * I" using h1(2) I(1) by simp
    from aspect_keep[OF roundoff_numbers(1,2) this r1 roundoff_numbers(5,6)]
    have "\<bar>w1 * J - h1 * I\<bar> \<le> 2 powi (- 50) * (h1 * I)" .
    ultimately show ?thesis by simp
  next
    assume a: "h2 = mh \<and> mh < h1 \<and> (1 - roundoff)\<^sup>2 * (w1 * mh) \<le> w2 * h1
                 \<and> w2 * h1 \<le> (1 + roundoff)\<^sup>2 * (w1 * mh)"
    have p: "0 < w1" "0 \<le> w2" "0 \<le> I" "0 \<le> mh" using w1(2) w2(1) I(1) mh(3) by simp_all
    from a have b: "(1 - roundoff)\<^sup>2 * (w1 * mh) \<le> w2 * h1"
      "w2 * h1 \<le> (1 + roundoff)\<^sup>2 * (w1 * mh)" by simp_all
    from aspect_scale[OF roundoff_numbers(1,2) p r1 b roundoff_numbers(7,8)]
    have "\<bar>w2 * J - mh * I\<bar> \<le> 2 powi (- 50) * (mh * I)" .
    then show ?thesis using a by simp
  qed
  have keep: "w2 = I \<and> h2 = J \<or> mw < I \<or> mh < J"
    using c1 c2 h1(3) by auto
  have bind: "w2 = I \<and> h2 = J \<or> w2 = mw \<or> h2 = mh"
    using c1 c2 by auto
  have le: "w2 \<le> mw" "w2 \<le> I" "h2 \<le> J" using w2(2) w1(3,4) h2(3) h1(3) by linarith+
  show ?thesis
    unfolding C_def[symmetric] H_def[symmetric] I_def[symmetric] J_def[symmetric]
    using mw(1,5) mh(1,5) fit w2(1) le h2(1,2) keep bind aspect x(2) y(2)
      fitImage_scenario onload_scenario[of innerWidth innerHeight result now captured st]
    by blast
qed

theorem image_fit_rounded_witness:
  "\<exists>w h x y. fitImage (Num 1000) (Num 800) (Num 100) (Num 1500) = (Num w, Num h, pt x y)
     \<and> 0 < w \<and> w \<le> 100 \<and> 0 < h \<and> h \<le> 1500
     \<and> \<bar>w * 1500 - h * 100\<bar> \<le> 2 powi (- 50) * (h * 100)
     \<and> \<bar>x - (1000 - w) / 2\<bar> \<le> 2 powi (- 51) * ((1000 - w) / 2)
     \<and> \<bar>y - (800 - h) / 2\<bar> \<le> 2 powi (- 51) * ((800 - h) / 2)"
proof -
  have "(1::int) \<le> 1000" "(1000::int) \<le> 2 ^ 32" "(1::int) \<le> 800" "(800::int) \<le> 2 ^ 32"
    "(1::int) \<le> 100" "(100::int) \<le> 2 ^ 32" "(1::int) \<le> 1500" "(1500::int) \<le> 2 ^ 32"
    by simp_all
  from image_fit_rounded[OF this] obtain mw mh w h x y where
    "fitImage (Num (of_int 1000)) (Num (of_int 800)) (Num (of_int 100)) (Num (of_int 1500))
       = (Num w, Num h, pt x y)"
    "0 < w" "w \<le> of_int 100" "0 < h" "h \<le> of_int 1500"
    "\<bar>w * of_int 1500 - h * of_int 100\<bar> \<le> 2 powi (- 50) * (h * of_int 100)"
    "\<bar>x - (of_int 1000 - w) / 2\<bar> \<le> 2 powi (- 51) * ((of_int 1000 - w) / 2)"
    "\<bar>y - (of_int 800 - h) / 2\<bar> \<le> 2 powi (- 51) * ((of_int 800 - h) / 2)"
    by blast
  then have "fitImage (Num 1000) (Num 800) (Num 100) (Num 1500) = (Num w, Num h, pt x y)
     \<and> 0 < w \<and> w \<le> 100 \<and> 0 < h \<and> h \<le> 1500
     \<and> \<bar>w * 1500 - h * 100\<bar> \<le> 2 powi (- 50) * (h * 100)
     \<and> \<bar>x - (1000 - w) / 2\<bar> \<le> 2 powi (- 51) * ((1000 - w) / 2)
     \<and> \<bar>y - (800 - h) / 2\<bar> \<le> 2 powi (- 51) * ((800 - h) / 2)"
    by (simp only: of_int_numeral)
  then show ?thesis by blast
qed

section \<open>Claim on the history invariant\<close>

text \<open>
  Claim C6. The invariant \<open>-1 \<le> historyIndex < history.length\<close> is not kept by the image
  import. The file is chosen on the fresh board with the text tool active; one click on the
  canvas commits a text element before the image callback runs; the callback then cuts
  the history with the \<open>historyIndex\<close> it captured (-1) while it advances the current
  cursor: the history has one entry and the cursor is 1. After two clicks the cursor is 2
  on a history of one entry, and an undo reads \<open>history[1]\<close>, which is \<open>undefined\<close>. Both
  states are reachable.
\<close>

theorem image_import_race_breaks_invariant:
  "reachable raceOne \<and> length (history raceOne) = 1 \<and> historyIndex raceOne = 1
   \<and> \<not> historyInv raceOne
   \<and> reachable raceTwo \<and> length (history raceTwo) = 1 \<and> historyIndex raceTwo = 2
   \<and> \<not> historyInv raceTwo \<and> canUndo raceTwo \<and> handleUndo raceTwo = None"
proof -
  have r1: "reachable raceOne"
    unfolding reachable_def raceOne_def
    by (rule r_image[OF reachable_raceChosen reaches_raceClicked])
  have r2: "reachable raceTwo"
    unfolding reachable_def raceTwo_def
    by (rule r_image[OF reachable_raceChosen r_start[OF reaches_raceClicked]])
  have c0: "historyIndex raceChosen = - 1" "elements raceChosen = []"
    by (simp_all add: raceChosen_def initialWhiteboard_def)
  have h1: "length (history raceOne) = 1" "historyIndex raceOne = 1"
    using raceClicked_cells c0
    by (simp_all add: raceOne_def imageOnload_def Let_def slice0_def split: prod.split)
  have t: "activeTool raceClicked = tool_text"
    by (simp add: raceClicked_def raceChosen_def startDrawing_def initialWhiteboard_def
        commit_def Let_def)
  have h2: "length (history raceTwo) = 1" "historyIndex raceTwo = 2"
    using raceClicked_cells c0 t
    by (simp_all add: raceTwo_def imageOnload_def startDrawing_def commit_def Let_def slice0_def
        split: prod.split)
  have u: "handleUndo raceTwo = None"
    using h2 by (simp add: handleUndo_def at_index_def)
  show ?thesis using r1 r2 h1 h2 u by (simp add: historyInv_def canUndo_def)
qed

section \<open>Claims on absent ids\<close>

text \<open>
  Claim C7. With an id that no element of the scene has, the text, resize, recolour, rotate
  and delete handlers leave the sequence of elements as it is and the position handler
  leaves the whole state as it is. Erasing at a point where nothing is hit removes nothing.
  An undo with the cursor at or below 0 and a redo with the cursor on the last entry return
  the state unchanged. None of them fails.
\<close>

theorem absent_id_is_silent_noop:
  "(i \<notin> el_id ` set (elements st) \<longrightarrow>
      elements (handleTextChange i newText st) = elements st
      \<and> handlePositionChange i newPosition st = st
      \<and> elements (handleTextResize i nw nh st) = elements st
      \<and> elements (handleNoteColorChange i newColor st) = elements st
      \<and> elements (handleImageResize i nw nh st) = elements st
      \<and> elements (handleImageRotate i nr st) = elements st
      \<and> elements (handleElementDelete i st) = elements st)
   \<and> (activeTool st = tool_eraser \<and> getElementAtPosition (elements st) point = None \<longrightarrow>
      elements (startDrawing point now st) = elements st
      \<and> history (startDrawing point now st) = history st
      \<and> historyIndex (startDrawing point now st) = historyIndex st)
   \<and> (action st = erasing \<and> getElementAtPosition (elements st) point = None \<longrightarrow>
      draw point st = Some st)
   \<and> (historyIndex st \<le> 0 \<longrightarrow> handleUndo st = Some st)
   \<and> (int (length (history st)) - 1 \<le> historyIndex st \<longrightarrow> handleRedo st = Some st)"
proof -
  have a: "elements (handleTextChange i newText st) = elements st
      \<and> handlePositionChange i newPosition st = st
      \<and> elements (handleTextResize i nw nh st) = elements st
      \<and> elements (handleNoteColorChange i newColor st) = elements st
      \<and> elements (handleImageResize i nw nh st) = elements st
      \<and> elements (handleImageRotate i nr st) = elements st
      \<and> elements (handleElementDelete i st) = elements st"
    if "i \<notin> el_id ` set (elements st)"
    using that
    by (simp add: handleTextChange_def handlePositionChange_def handleTextResize_def
        handleNoteColorChange_def handleImageResize_def handleImageRotate_def
        handleElementDelete_def commit_def absent_map absent_map' absent_filter)
  have b: "elements (startDrawing point now st) = elements st
      \<and> history (startDrawing point now st) = history st
      \<and> historyIndex (startDrawing point now st) = historyIndex st"
    if "activeTool st = tool_eraser" "getElementAtPosition (elements st) point = None"
    using that by (simp add: startDrawing_def)
  have c: "draw point st = Some st"
    if "action st = erasing" "getElementAtPosition (elements st) point = None"
    using that by (simp add: draw_def)
  have d: "handleRedo st = Some st" if "int (length (history st)) - 1 \<le> historyIndex st"
    using that by (simp add: handleRedo_def)
  show ?thesis using a b c d undo_noop[of st] by blast
qed

theorem absent_id_is_silent_noop_witness:
  "''7'' \<notin> el_id ` set (elements exampleState)
   \<and> elements (handleTextChange ''7'' ''hello'' exampleState) = [exampleA]
   \<and> handlePositionChange ''7'' (pt 1 2) exampleState = exampleState
   \<and> elements (handleElementDelete ''7'' exampleState) = [exampleA]
   \<and> activeTool exampleState = tool_eraser \<and> action exampleState = erasing
   \<and> getElementAtPosition (elements exampleState) (pt 500 500) = None
   \<and> elements (startDrawing (pt 500 500) ''8'' exampleState) = [exampleA]
   \<and> draw (pt 500 500) exampleState = Some exampleState
   \<and> historyIndex exampleState \<le> 0
   \<and> handleUndo exampleState = Some exampleState
   \<and> int (length (history exampleState)) - 1 \<le> historyIndex exampleState
   \<and> handleRedo exampleState = Some exampleState"
proof -
  have e: "elements exampleState = [exampleA]" "activeTool exampleState = tool_eraser"
    "action exampleState = erasing" "historyIndex exampleState = - 1" "history exampleState = []"
    by (simp_all add: exampleState_def initialWhiteboard_def)
  have a: "''7'' \<notin> el_id ` set (elements exampleState)" by (simp add: e exampleA_def)
  have g: "getElementAtPosition (elements exampleState) (pt 500 500) = None"
    by (simp add: e exampleA_def getElementAtPosition_def js_compare)
  note t = absent_id_is_silent_noop[of "''7''" exampleState "''hello''" "pt 1 2" _ _ _ _
      "pt 500 500" "''8''"]
  show ?thesis using t a g e by simp
qed

section \<open>Claims on path elements\<close>

text \<open>
  Claim C8. The matching rule accepts a path exactly when two consecutive points of it form
  a segment at a distance below 10 from the query point. For the path from (0, 0) to
  (10, 0) alone in the scene, the point (5, 1) is at distance 1 and hits it, and the point
  (5, 50) is at distance 50 and hits nothing.
\<close>

theorem path_hit_iff_near_segment:
  "(hitsElement point (PathElement i c sw opa pts) \<longleftrightarrow>
      (\<exists>j. j + 1 < length pts \<and> jsLt (distanceToSegment point (pts ! j) (pts ! (j + 1))) (Num 10)))
   \<and> distanceToSegment (pt 5 1) (pt 0 0) (pt 10 0) = Num 1
   \<and> getElementAtPosition [PathElement i c (Num 3) (Num 1) [pt 0 0, pt 10 0]] (pt 5 1)
       = Some (PathElement i c (Num 3) (Num 1) [pt 0 0, pt 10 0])
   \<and> distanceToSegment (pt 5 50) (pt 0 0) (pt 10 0) = Num 50
   \<and> getElementAtPosition [PathElement i c (Num 3) (Num 1) [pt 0 0, pt 10 0]] (pt 5 50) = None"
  using pathLoop_iff[of point pts] scenario_near scenario_far scenario_hit[of i c]
    scenario_miss[of i c]
  by simp

text \<open>
  Claim C9. \<open>getElementAtPosition\<close> never returns a path of exactly one point, whatever
  the scene and the query point, not even at that point itself. Hence the select tool never
  selects such a path, and the eraser, on pointer down and while dragging, never removes
  it, provided that no other element of the scene carries its id (the eraser removes by
  the id of the element it hit).
\<close>

theorem single_point_path_never_hit:
  "getElementAtPosition els point \<noteq> Some (PathElement i c sw opa [p])
   \<and> \<not> hitsElement p (PathElement i c sw opa [p])
   \<and> getElementAtPosition [PathElement i c sw opa [p]] p = None
   \<and> (activeTool st = tool_select \<and> selectedElement st \<noteq> Some (PathElement i c sw opa [p]) \<longrightarrow>
        selectedElement (startDrawing point now st) \<noteq> Some (PathElement i c sw opa [p]))
   \<and> (PathElement i c sw opa [p] \<in> set (elements st)
        \<and> (\<forall>e\<in>set (elements st). el_id e = i \<longrightarrow> e = PathElement i c sw opa [p]) \<longrightarrow>
        (activeTool st = tool_eraser \<longrightarrow>
           PathElement i c sw opa [p] \<in> set (elements (startDrawing point now st)))
        \<and> (action st = erasing \<longrightarrow>
           (\<exists>st'. draw point st = Some st' \<and> PathElement i c sw opa [p] \<in> set (elements st'))))"
proof -
  let ?d = "PathElement i c sw opa [p]"
  have a: "getElementAtPosition els' q \<noteq> Some ?d" for els' q
    using hit_not_dot[of els' q ?d i c sw opa p] by blast
  have b: "selectedElement (startDrawing point now st) \<noteq> Some ?d"
    if t: "activeTool st = tool_select" and n: "selectedElement st \<noteq> Some ?d"
  proof (cases "getElementAtPosition (elements st) point")
    case None
    then show ?thesis using t n by (simp add: startDrawing_def)
  next
    case (Some hit)
    then have "hit \<noteq> ?d" using a[of "elements st" point] by simp
    then show ?thesis using Some t n by (simp add: startDrawing_def)
  qed
  have c: "?d \<in> set (elements (startDrawing point now st))"
    if "?d \<in> set (elements st)" "\<forall>e\<in>set (elements st). el_id e = i \<longrightarrow> e = ?d"
      "activeTool st = tool_eraser"
  proof (cases "getElementAtPosition (elements st) point")
    case None
    then show ?thesis using that(1,3) by (simp add: startDrawing_def)
  next
    case (Some hit)
    then show ?thesis using that(3) dot_survives_filter[OF that(1,2) Some]
      by (simp add: startDrawing_def commit_def)
  qed
  have e: "\<exists>st'. draw point st = Some st' \<and> ?d \<in> set (elements st')"
    if "?d \<in> set (elements st)" "\<forall>e\<in>set (elements st). el_id e = i \<longrightarrow> e = ?d"
      "action st = erasing"
  proof (cases "getElementAtPosition (elements st) point")
    case None
    then show ?thesis using that(1,3) by (simp add: draw_def)
  next
    case (Some hit)
    then show ?thesis using that(3) dot_survives_filter[OF that(1,2) Some]
      by (simp add: draw_def)
  qed
  have f: "getElementAtPosition [?d] p = None" by (simp add: getElementAtPosition_def)
  have h: "\<not> hitsElement p ?d" by simp
  show ?thesis using a[of els point] b c e f h by blast
qed

theorem single_point_path_never_hit_witness:
  "exampleDot = PathElement ''3'' ''#000000'' (Num 3) (Num 1) [pt 50 25]
   \<and> exampleDot \<in> set (elements dotState)
   \<and> el_id exampleA \<noteq> ''3''
   \<and> activeTool dotState = tool_eraser \<and> action dotState = erasing
   \<and> getElementAtPosition (elements dotState) (pt 50 25) = Some exampleA
   \<and> elements (startDrawing (pt 50 25) ''8'' dotState) = [exampleDot]
   \<and> draw (pt 50 25) dotState = Some (dotState\<lparr>elements := [exampleDot]\<rparr>)
   \<and> activeTool (dotState\<lparr>activeTool := tool_select\<rparr>) = tool_select
   \<and> selectedElement (dotState\<lparr>activeTool := tool_select\<rparr>) = None
   \<and> selectedElement (startDrawing (pt 50 25) ''8'' (dotState\<lparr>activeTool := tool_select\<rparr>))
       = Some exampleA"
proof -
  let ?d = "PathElement ''3'' ''#000000'' (Num 3) (Num 1) [pt 50 25]"
  have s: "elements dotState = [exampleA, exampleDot]" "activeTool dotState = tool_eraser"
    "action dotState = erasing" "selectedElement dotState = None"
    by (simp_all add: dotState_def initialWhiteboard_def)
  have m: "?d \<in> set (elements dotState)" by (simp add: s exampleDot_def)
  have u: "\<forall>e\<in>set (elements dotState). el_id e = ''3'' \<longrightarrow> e = ?d"
    by (simp add: s exampleDot_def exampleA_def)
  have g: "getElementAtPosition (elements dotState) (pt 50 25) = Some exampleA"
    by (simp add: s getElementAtPosition_def exampleDot_def hits_exampleA numeral_2_eq_2)
  note t = single_point_path_never_hit[of _ "pt 50 25" "''3''" "''#000000''" "Num 3" "Num 1" "pt 50 25"
      _ "''8''"]
  have k1: "?d \<in> set (elements (startDrawing (pt 50 25) ''8'' dotState))"
    using t[of _ dotState] m u s by blast
  have k2: "\<exists>st'. draw (pt 50 25) dotState = Some st' \<and> ?d \<in> set (elements st')"
    using t[of _ dotState] m u s by blast
  have k3: "selectedElement (startDrawing (pt 50 25) ''8'' (dotState\<lparr>activeTool := tool_select\<rparr>))
      \<noteq> Some ?d"
    using t[of _ "dotState\<lparr>activeTool := tool_select\<rparr>"] s by simp
  have e1: "elements (startDrawing (pt 50 25) ''8'' dotState) = [exampleDot]"
    using k1 g s by (simp add: startDrawing_def commit_def exampleDot_def exampleA_def)
  have e2: "draw (pt 50 25) dotState = Some (dotState\<lparr>elements := [exampleDot]\<rparr>)"
    using k2 g s by (simp add: draw_def exampleDot_def exampleA_def)
  have e3: "selectedElement (startDrawing (pt 50 25) ''8'' (dotState\<lparr>activeTool := tool_select\<rparr>))
       = Some exampleA"
    using k3 g s by (simp add: startDrawing_def exampleA_def)
  show ?thesis using s m g e1 e2 e3 by (simp add: exampleDot_def exampleA_def)
qed

section \<open>Claim on deleting an absent id\<close>

text \<open>
  Claim C10. \<open>handleElementDelete\<close> always appends the filtered scene to the history kept
  up to the cursor and advances the cursor by one, so it never returns the state
  unchanged. With an id that no element has, the scene stays the same and the appended entry
  is that scene; with the cursor on the last entry the history is the old one plus that
  entry.
\<close>

theorem delete_absent_id_still_commits:
  "history (handleElementDelete i st) =
      slice0 (history st) (historyIndex st + 1) @ [filter (\<lambda>el. el_id el \<noteq> i) (elements st)]
   \<and> historyIndex (handleElementDelete i st) = historyIndex st + 1
   \<and> handleElementDelete i st \<noteq> st
   \<and> (i \<notin> el_id ` set (elements st) \<longrightarrow>
        elements (handleElementDelete i st) = elements st
        \<and> history (handleElementDelete i st) =
            slice0 (history st) (historyIndex st + 1) @ [elements st])
   \<and> (i \<notin> el_id ` set (elements st) \<and> historyIndex st = int (length (history st)) - 1 \<longrightarrow>
        history (handleElementDelete i st) = history st @ [elements st]
        \<and> length (history (handleElementDelete i st)) = length (history st) + 1)"
proof -
  have n: "handleElementDelete i st \<noteq> st"
  proof
    assume "handleElementDelete i st = st"
    then have "historyIndex (handleElementDelete i st) = historyIndex st" by simp
    then show False by (simp add: handleElementDelete_def commit_def)
  qed
  have s: "slice0 (history st) (historyIndex st + 1) = history st"
    if "historyIndex st = int (length (history st)) - 1"
    using that by (simp add: slice0_def)
  show ?thesis
    using n s by (simp add: handleElementDelete_def commit_def absent_filter)
qed

theorem delete_absent_id_still_commits_witness:
  "''7'' \<notin> el_id ` set (elements exampleState)
   \<and> historyIndex exampleState = int (length (history exampleState)) - 1
   \<and> elements (handleElementDelete ''7'' exampleState) = [exampleA]
   \<and> history (handleElementDelete ''7'' exampleState) = [[exampleA]]
   \<and> historyIndex (handleElementDelete ''7'' exampleState) = 0"
proof -
  have e: "elements exampleState = [exampleA]" "historyIndex exampleState = - 1"
    "history exampleState = []"
    by (simp_all add: exampleState_def initialWhiteboard_def)
  have a: "''7'' \<notin> el_id ` set (elements exampleState)" by (simp add: e exampleA_def)
  have t: "historyIndex exampleState = int (length (history exampleState)) - 1" by (simp add: e)
  show ?thesis
    using delete_absent_id_still_commits[of "''7''" exampleState] a t e
    by (simp add: slice0_def)
qed

end
